theory Spec2Isabelle
  imports Main "HOL-Library.Multiset"
begin

section \<open>Data model\<close>

text \<open>
  The repository holds two versions of the same script: \<^verbatim>\<open>src/rover.js\<close> and
  \<^verbatim>\<open>src/unnamed/part_000\<close>. Definitions without a suffix embed \<^verbatim>\<open>rover.js\<close>;
  definitions with the suffix \<open>_p0\<close> embed \<^verbatim>\<open>part_000\<close>. Functions whose text is the
  same in both files (\<open>turnLeft\<close>, \<open>turnRight\<close>, \<open>hasInvalidCommands\<close>, \<open>chainList\<close>,
  \<open>capitalize\<close>, \<open>issueWarning\<close>) are embedded once.

  JavaScript objects are shared by reference. A rover object is a reference \<open>ref\<close> into a
  store \<open>rovers\<close>; the map's cells and the command requests hold such references. The
  numbers of the script are integers throughout and are modelled by \<open>int\<close>.
  An uncaught \<^verbatim>\<open>TypeError\<close> (a property read from \<^verbatim>\<open>undefined\<close>) is the value
  \<open>Inl TypeError\<close>.
\<close>

type_synonym ref = nat

text \<open>An object \<^verbatim>\<open>{x: .., y: ..}\<close>: the pair \<open>(x, y)\<close>.\<close>

type_synonym coords = "int \<times> int"

datatype error = TypeError

text \<open>A square holds \<^verbatim>\<open>0\<close>, \<^verbatim>\<open>"#"\<close> or a rover object.\<close>

datatype cell = Empty | Obstacle | RoverRef ref

record boundaries =
  left :: int
  right :: int
  top_bound :: int
  down :: int

text \<open>
  \<^verbatim>\<open>map.squares\<close> is an array of arrays. An array is modelled by the partial map from
  its integer property keys to its elements, so that a read outside the array is
  \<^verbatim>\<open>undefined\<close> (\<open>None\<close>) and a write creates the property, as in JavaScript.
\<close>

record marsmap =
  squares :: "int \<rightharpoonup> (int \<rightharpoonup> cell)"
  boundaries :: boundaries

text \<open>
  An element of \<^verbatim>\<open>rover.travelLog\<close> in \<^verbatim>\<open>rover.js\<close> is an object reference: either the
  object literal created when the rover was placed, which nothing else refers to, or the
  rover's own \<^verbatim>\<open>currentCoords\<close> object, pushed by \<^verbatim>\<open>repositionRover\<close> (line 256) and
  mutated in place by every later move. In \<^verbatim>\<open>part_000\<close> every element is a fresh object
  literal (line 259), so there the log is a list of values.
\<close>

datatype entry = ObjectLiteral coords | CurrentCoordsObject

record 'e rover =
  name :: string
  direction :: string
  currentCoords :: "coords option"
  travelLog :: "'e list option"

text \<open>
  What \<^verbatim>\<open>console.log\<close> receives. \<open>Warning n m\<close> is the line
  \<^verbatim>\<open>`${n} ${m}!!!!`\<close> of \<^verbatim>\<open>issueWarning\<close>, \<open>TravelLog n steps\<close> the block printed by
  \<^verbatim>\<open>showTravel\<close>, \<open>Message s\<close> any other line.
\<close>

datatype event = Warning string string | TravelLog string "coords list" | Message string

record 'e world =
  marsMap :: marsmap
  rovers :: "ref \<Rightarrow> 'e rover"
  console :: "event list"

record request =
  rover :: ref
  commands :: string

text \<open>An order \<^verbatim>\<open>{rover: .., command: ..}\<close>: the pair of the rover and the one-character string.\<close>

type_synonym order = "ref \<times> string"

section \<open>Map creation\<close>

text \<open>The inner and the outer loop of \<^verbatim>\<open>generateMap\<close>, run for \<open>n\<close> iterations.\<close>

fun fillRow :: "nat \<Rightarrow> (int \<rightharpoonup> cell)" where
  "fillRow 0 = Map.empty"
| "fillRow (Suc j) = (fillRow j)(int j \<mapsto> Empty)"

fun fillSquares :: "nat \<Rightarrow> nat \<Rightarrow> (int \<rightharpoonup> (int \<rightharpoonup> cell))" where
  "fillSquares 0 cols = Map.empty"
| "fillSquares (Suc i) cols = (fillSquares i cols)(int i \<mapsto> fillRow cols)"

definition generateMap :: "int \<Rightarrow> int \<Rightarrow> marsmap option" where
  "generateMap xSize ySize =
     (if xSize > 0 \<and> ySize > 0 then
        Some \<lparr>squares = fillSquares (nat xSize) (nat ySize),
              boundaries = \<lparr>left = - 1, right = ySize, top_bound = - 1, down = xSize\<rparr>\<rparr>
      else None)"

definition generateEmptyMap_p0 :: "int \<Rightarrow> int \<Rightarrow> marsmap option" where
  "generateEmptyMap_p0 xSize ySize =
     (if xSize > 0 \<and> ySize > 0 then
        Some \<lparr>squares = fillSquares (nat ySize) (nat xSize),
              boundaries = \<lparr>left = - 1, right = xSize, top_bound = - 1, down = ySize\<rparr>\<rparr>
      else None)"

text \<open>\<^verbatim>\<open>map.squares[a][b]\<close> read and written.\<close>

definition readSquare :: "marsmap \<Rightarrow> int \<Rightarrow> int \<Rightarrow> error + cell option" where
  "readSquare m a b = (case squares m a of None \<Rightarrow> Inl TypeError | Some row \<Rightarrow> Inr (row b))"

definition writeSquare :: "marsmap \<Rightarrow> int \<Rightarrow> int \<Rightarrow> cell \<Rightarrow> error + marsmap" where
  "writeSquare m a b v =
     (case squares m a of
        None \<Rightarrow> Inl TypeError
      | Some row \<Rightarrow> Inr (m\<lparr>squares := (squares m)(a \<mapsto> row(b \<mapsto> v))\<rparr>))"

section \<open>Output\<close>

text \<open>
  \<^verbatim>\<open>word[0].toUpperCase() + word.slice(1).toLowerCase()\<close>; \<^verbatim>\<open>word[0]\<close> is
  \<^verbatim>\<open>undefined\<close> for the empty string. The case mappings are those of the ASCII letters.
\<close>

definition toUpperCase :: "string \<Rightarrow> string" where
  "toUpperCase s =
     map (\<lambda>c. let n = (of_char c :: nat) in if 97 \<le> n \<and> n \<le> 122 then char_of (n - 32) else c) s"

definition toLowerCase :: "string \<Rightarrow> string" where
  "toLowerCase s =
     map (\<lambda>c. let n = (of_char c :: nat) in if 65 \<le> n \<and> n \<le> 90 then char_of (n + 32) else c) s"

definition capitalize :: "string \<Rightarrow> error + string" where
  "capitalize word =
     (case word of [] \<Rightarrow> Inl TypeError | c # cs \<Rightarrow> Inr (toUpperCase [c] @ toLowerCase cs))"

definition issueWarning :: "'e world \<Rightarrow> ref \<Rightarrow> string \<Rightarrow> error + 'e world" where
  "issueWarning st r message =
     (case capitalize (name (rovers st r)) of
        Inl e \<Rightarrow> Inl e
      | Inr n \<Rightarrow> Inr (st\<lparr>console := console st @ [Warning n message]\<rparr>))"

text \<open>The steps of a travel log of \<^verbatim>\<open>rover.js\<close>, read through the references.\<close>

definition readEntry :: "entry rover \<Rightarrow> entry \<Rightarrow> coords option" where
  "readEntry rv e = (case e of ObjectLiteral c \<Rightarrow> Some c | CurrentCoordsObject \<Rightarrow> currentCoords rv)"

definition readLog :: "entry rover \<Rightarrow> coords list option" where
  "readLog rv = (case travelLog rv of None \<Rightarrow> None | Some es \<Rightarrow> those (map (readEntry rv) es))"

definition showTravel :: "entry world \<Rightarrow> ref \<Rightarrow> error + entry world" where
  "showTravel st r =
     (case capitalize (name (rovers st r)) of
        Inl e \<Rightarrow> Inl e
      | Inr n \<Rightarrow>
          (case readLog (rovers st r) of
             None \<Rightarrow> Inl TypeError
           | Some steps \<Rightarrow> Inr (st\<lparr>console := console st @ [TravelLog n steps]\<rparr>)))"

definition showTravel_p0 :: "coords world \<Rightarrow> ref \<Rightarrow> error + coords world" where
  "showTravel_p0 st r =
     (case capitalize (name (rovers st r)) of
        Inl e \<Rightarrow> Inl e
      | Inr n \<Rightarrow>
          (case travelLog (rovers st r) of
             None \<Rightarrow> Inl TypeError
           | Some steps \<Rightarrow> Inr (st\<lparr>console := console st @ [TravelLog n steps]\<rparr>)))"

section \<open>Rover movement\<close>

definition haveObstacle :: "marsmap \<Rightarrow> coords \<Rightarrow> error + string option" where
  "haveObstacle m destination =
     (if fst destination \<le> top_bound (boundaries m) \<or> fst destination \<ge> down (boundaries m) \<or>
         snd destination \<le> left (boundaries m) \<or> snd destination \<ge> right (boundaries m)
      then Inr (Some ''destination out of bounds'')
      else (case readSquare m (fst destination) (snd destination) of
              Inl e \<Rightarrow> Inl e
            | Inr c \<Rightarrow> if c \<noteq> Some Empty then Inr (Some ''collision warning'') else Inr None))"

definition haveObstacle_p0 :: "marsmap \<Rightarrow> coords \<Rightarrow> error + string option" where
  "haveObstacle_p0 m destination =
     (if snd destination \<le> top_bound (boundaries m) \<or> snd destination \<ge> down (boundaries m) \<or>
         fst destination \<le> left (boundaries m) \<or> fst destination \<ge> right (boundaries m)
      then Inr (Some ''destination out of bounds'')
      else (case readSquare m (snd destination) (fst destination) of
              Inl e \<Rightarrow> Inl e
            | Inr c \<Rightarrow> if c \<noteq> Some Empty then Inr (Some ''collision warning'') else Inr None))"

definition turnLeft :: "'e rover \<Rightarrow> 'e rover" where
  "turnLeft rv =
     (if direction rv = ''N'' then rv\<lparr>direction := ''W''\<rparr>
      else if direction rv = ''E'' then rv\<lparr>direction := ''N''\<rparr>
      else if direction rv = ''S'' then rv\<lparr>direction := ''E''\<rparr>
      else if direction rv = ''W'' then rv\<lparr>direction := ''S''\<rparr>
      else rv)"

definition turnRight :: "'e rover \<Rightarrow> 'e rover" where
  "turnRight rv =
     (if direction rv = ''N'' then rv\<lparr>direction := ''E''\<rparr>
      else if direction rv = ''E'' then rv\<lparr>direction := ''S''\<rparr>
      else if direction rv = ''S'' then rv\<lparr>direction := ''W''\<rparr>
      else if direction rv = ''W'' then rv\<lparr>direction := ''N''\<rparr>
      else rv)"

text \<open>
  The \<^verbatim>\<open>destination\<close> object that \<^verbatim>\<open>moveForward\<close> and \<^verbatim>\<open>moveBackwards\<close> build from the
  rover's coordinates and the \<^verbatim>\<open>switch\<close> on its direction.
\<close>

definition forwardDestination :: "coords \<Rightarrow> string \<Rightarrow> coords" where
  "forwardDestination c d =
     (if d = ''N'' then (fst c - 1, snd c)
      else if d = ''E'' then (fst c, snd c + 1)
      else if d = ''S'' then (fst c + 1, snd c)
      else if d = ''W'' then (fst c, snd c - 1)
      else c)"

definition backwardDestination :: "coords \<Rightarrow> string \<Rightarrow> coords" where
  "backwardDestination c d =
     (if d = ''N'' then (fst c + 1, snd c)
      else if d = ''E'' then (fst c, snd c - 1)
      else if d = ''S'' then (fst c - 1, snd c)
      else if d = ''W'' then (fst c, snd c + 1)
      else c)"

definition forwardDestination_p0 :: "coords \<Rightarrow> string \<Rightarrow> coords" where
  "forwardDestination_p0 c d =
     (if d = ''N'' then (fst c, snd c - 1)
      else if d = ''E'' then (fst c + 1, snd c)
      else if d = ''S'' then (fst c, snd c + 1)
      else if d = ''W'' then (fst c - 1, snd c)
      else c)"

definition backwardDestination_p0 :: "coords \<Rightarrow> string \<Rightarrow> coords" where
  "backwardDestination_p0 c d =
     (if d = ''N'' then (fst c, snd c + 1)
      else if d = ''E'' then (fst c - 1, snd c)
      else if d = ''S'' then (fst c, snd c - 1)
      else if d = ''W'' then (fst c + 1, snd c)
      else c)"

text \<open>
  \<^verbatim>\<open>repositionRover\<close> of \<^verbatim>\<open>rover.js\<close>: the accepted move writes the destination into the
  \<^verbatim>\<open>currentCoords\<close> object and pushes that same object onto the travel log.
\<close>

definition repositionRover :: "entry world \<Rightarrow> ref \<Rightarrow> coords \<Rightarrow> error + entry world" where
  "repositionRover st r destination =
     (case haveObstacle (marsMap st) destination of
        Inl e \<Rightarrow> Inl e
      | Inr (Some blockedWay) \<Rightarrow> issueWarning st r blockedWay
      | Inr None \<Rightarrow>
          (case currentCoords (rovers st r) of
             None \<Rightarrow> Inl TypeError
           | Some cc \<Rightarrow>
               (case writeSquare (marsMap st) (fst cc) (snd cc) Empty of
                  Inl e \<Rightarrow> Inl e
                | Inr m1 \<Rightarrow>
                    (case writeSquare m1 (fst destination) (snd destination) (RoverRef r) of
                       Inl e \<Rightarrow> Inl e
                     | Inr m2 \<Rightarrow>
                         (case travelLog (rovers st r) of
                            None \<Rightarrow> Inl TypeError
                          | Some lg \<Rightarrow>
                              Inr (st\<lparr>marsMap := m2,
                                      rovers := (rovers st)
                                        (r := (rovers st r)
                                           \<lparr>currentCoords := Some destination,
                                            travelLog := Some (lg @ [CurrentCoordsObject])\<rparr>)\<rparr>))))))"

text \<open>
  \<^verbatim>\<open>repositionRover\<close> of \<^verbatim>\<open>part_000\<close>: rows are indexed by \<open>y\<close>, and a fresh copy of the
  coordinates is pushed.
\<close>

definition repositionRover_p0 :: "coords world \<Rightarrow> ref \<Rightarrow> coords \<Rightarrow> error + coords world" where
  "repositionRover_p0 st r destination =
     (case haveObstacle_p0 (marsMap st) destination of
        Inl e \<Rightarrow> Inl e
      | Inr (Some blockedWay) \<Rightarrow> issueWarning st r blockedWay
      | Inr None \<Rightarrow>
          (case currentCoords (rovers st r) of
             None \<Rightarrow> Inl TypeError
           | Some cc \<Rightarrow>
               (case writeSquare (marsMap st) (snd cc) (fst cc) Empty of
                  Inl e \<Rightarrow> Inl e
                | Inr m1 \<Rightarrow>
                    (case writeSquare m1 (snd destination) (fst destination) (RoverRef r) of
                       Inl e \<Rightarrow> Inl e
                     | Inr m2 \<Rightarrow>
                         (case travelLog (rovers st r) of
                            None \<Rightarrow> Inl TypeError
                          | Some lg \<Rightarrow>
                              Inr (st\<lparr>marsMap := m2,
                                      rovers := (rovers st)
                                        (r := (rovers st r)
                                           \<lparr>currentCoords := Some destination,
                                            travelLog := Some (lg @ [destination])\<rparr>)\<rparr>))))))"

definition moveForward :: "entry world \<Rightarrow> ref \<Rightarrow> error + entry world" where
  "moveForward st r =
     (case currentCoords (rovers st r) of
        None \<Rightarrow> Inl TypeError
      | Some cc \<Rightarrow> repositionRover st r (forwardDestination cc (direction (rovers st r))))"

definition moveBackwards :: "entry world \<Rightarrow> ref \<Rightarrow> error + entry world" where
  "moveBackwards st r =
     (case currentCoords (rovers st r) of
        None \<Rightarrow> Inl TypeError
      | Some cc \<Rightarrow> repositionRover st r (backwardDestination cc (direction (rovers st r))))"

definition moveForward_p0 :: "coords world \<Rightarrow> ref \<Rightarrow> error + coords world" where
  "moveForward_p0 st r =
     (case currentCoords (rovers st r) of
        None \<Rightarrow> Inl TypeError
      | Some cc \<Rightarrow> repositionRover_p0 st r (forwardDestination_p0 cc (direction (rovers st r))))"

definition moveBackwards_p0 :: "coords world \<Rightarrow> ref \<Rightarrow> error + coords world" where
  "moveBackwards_p0 st r =
     (case currentCoords (rovers st r) of
        None \<Rightarrow> Inl TypeError
      | Some cc \<Rightarrow> repositionRover_p0 st r (backwardDestination_p0 cc (direction (rovers st r))))"

section \<open>Rover command\<close>

text \<open>
  \<^verbatim>\<open>hasInvalidCommands\<close> returns \<^verbatim>\<open>false\<close> or a closure that, when called, issues the
  warning for the request it captured. The closure is modelled by the rover it names:
  \<open>None\<close> is \<^verbatim>\<open>false\<close>. The regular expression \<^verbatim>\<open>/[^lrfb]+/g\<close> is a fresh object at
  every evaluation; its \<^verbatim>\<open>test\<close>, \<open>hasWrongCommand\<close>, holds of a string that has a
  character other than l, r, f, b.
\<close>

definition hasWrongCommand :: "string \<Rightarrow> bool" where
  "hasWrongCommand s = list_ex (\<lambda>c. c \<notin> set ''lrfb'') s"

definition hasInvalidCommands :: "request list \<Rightarrow> ref option" where
  "hasInvalidCommands commandList =
     foldl (\<lambda>errorFlag pair.
              if hasWrongCommand (commands pair) then Some (rover pair) else errorFlag)
           None commandList"

text \<open>\<^verbatim>\<open>s.charAt(i)\<close>: a string of one character, or the empty string out of range.\<close>

definition charAt :: "string \<Rightarrow> nat \<Rightarrow> string" where
  "charAt s i = (if i < length s then [s ! i] else [])"

text \<open>The inner loop of \<^verbatim>\<open>chainList\<close> (over \<^verbatim>\<open>row\<close>) for one value of \<^verbatim>\<open>i\<close>.\<close>

fun chainRows :: "nat \<Rightarrow> request list \<Rightarrow> order list" where
  "chainRows i [] = []"
| "chainRows i (p # ps) =
     (if charAt (commands p) i \<noteq> [] then (rover p, charAt (commands p) i) # chainRows i ps
      else chainRows i ps)"

text \<open>The outer loop of \<^verbatim>\<open>chainList\<close>, run for \<^verbatim>\<open>i\<close> from 0 up to \<open>n - 1\<close>.\<close>

fun chainColumns :: "nat \<Rightarrow> request list \<Rightarrow> order list" where
  "chainColumns 0 commandList = []"
| "chainColumns (Suc i) commandList = chainColumns i commandList @ chainRows i commandList"

text \<open>
  \<^verbatim>\<open>Array.prototype.sort\<close> is stable and sorts the array in place; the comparator
  \<^verbatim>\<open>b.commands.length - a.commands.length\<close> orders by descending length.
  \<^verbatim>\<open>chainList\<close> returns the chain, and the model returns beside it the array as the
  call leaves it. \<^verbatim>\<open>commandList[0]\<close> is \<^verbatim>\<open>undefined\<close> for the empty array.
\<close>

definition sortByLength :: "request list \<Rightarrow> request list" where
  "sortByLength commandList = sort_key (\<lambda>p. - int (length (commands p))) commandList"

definition chainList :: "request list \<Rightarrow> error + order list \<times> request list" where
  "chainList commandList =
     (let commandList' = sortByLength commandList in
      case commandList' of
        [] \<Rightarrow> Inl TypeError
      | first # _ \<Rightarrow> Inr (chainColumns (length (commands first)) commandList', commandList'))"

text \<open>The \<^verbatim>\<open>switch\<close> of \<^verbatim>\<open>commandRovers\<close> on one order, and the loop over the orders.\<close>

definition executeOrder :: "entry world \<Rightarrow> order \<Rightarrow> error + entry world" where
  "executeOrder st ord =
     (if snd ord = ''l'' then Inr (st\<lparr>rovers := (rovers st)(fst ord := turnLeft (rovers st (fst ord)))\<rparr>)
      else if snd ord = ''r'' then Inr (st\<lparr>rovers := (rovers st)(fst ord := turnRight (rovers st (fst ord)))\<rparr>)
      else if snd ord = ''f'' then moveForward st (fst ord)
      else if snd ord = ''b'' then moveBackwards st (fst ord)
      else Inr st)"

fun executeOrders :: "entry world \<Rightarrow> order list \<Rightarrow> error + entry world" where
  "executeOrders st [] = Inr st"
| "executeOrders st (ord # orders) =
     (case executeOrder st ord of Inl e \<Rightarrow> Inl e | Inr st' \<Rightarrow> executeOrders st' orders)"

fun showTravels :: "entry world \<Rightarrow> request list \<Rightarrow> error + entry world" where
  "showTravels st [] = Inr st"
| "showTravels st (p # ps) =
     (case showTravel st (rover p) of Inl e \<Rightarrow> Inl e | Inr st' \<Rightarrow> showTravels st' ps)"

text \<open>
  \<^verbatim>\<open>commandRovers\<close> returns nothing; the model returns the state and the caller's
  \<^verbatim>\<open>commandList\<close> array as the call leaves them.
\<close>

definition commandRovers :: "entry world \<Rightarrow> request list \<Rightarrow> error + entry world \<times> request list" where
  "commandRovers st commandList =
     (case hasInvalidCommands commandList of
        None \<Rightarrow>
          (case chainList commandList of
             Inl e \<Rightarrow> Inl e
           | Inr (orders, commandList') \<Rightarrow>
               (case executeOrders st orders of
                  Inl e \<Rightarrow> Inl e
                | Inr st' \<Rightarrow>
                    (case showTravels st' commandList' of
                       Inl e \<Rightarrow> Inl e
                     | Inr st'' \<Rightarrow> Inr (st'', commandList'))))
      | Some r \<Rightarrow>
          (case issueWarning st r ''has wrong commands. Only l,r,f,b are valid commands'' of
             Inl e \<Rightarrow> Inl e
           | Inr st' \<Rightarrow> Inr (st', commandList)))"

definition executeOrder_p0 :: "coords world \<Rightarrow> order \<Rightarrow> error + coords world" where
  "executeOrder_p0 st ord =
     (if snd ord = ''l'' then Inr (st\<lparr>rovers := (rovers st)(fst ord := turnLeft (rovers st (fst ord)))\<rparr>)
      else if snd ord = ''r'' then Inr (st\<lparr>rovers := (rovers st)(fst ord := turnRight (rovers st (fst ord)))\<rparr>)
      else if snd ord = ''f'' then moveForward_p0 st (fst ord)
      else if snd ord = ''b'' then moveBackwards_p0 st (fst ord)
      else Inr st)"

fun executeOrders_p0 :: "coords world \<Rightarrow> order list \<Rightarrow> error + coords world" where
  "executeOrders_p0 st [] = Inr st"
| "executeOrders_p0 st (ord # orders) =
     (case executeOrder_p0 st ord of Inl e \<Rightarrow> Inl e | Inr st' \<Rightarrow> executeOrders_p0 st' orders)"

fun showTravels_p0 :: "coords world \<Rightarrow> request list \<Rightarrow> error + coords world" where
  "showTravels_p0 st [] = Inr st"
| "showTravels_p0 st (p # ps) =
     (case showTravel_p0 st (rover p) of Inl e \<Rightarrow> Inl e | Inr st' \<Rightarrow> showTravels_p0 st' ps)"

definition commandRovers_p0 :: "coords world \<Rightarrow> request list \<Rightarrow> error + coords world \<times> request list" where
  "commandRovers_p0 st commandList =
     (case hasInvalidCommands commandList of
        None \<Rightarrow>
          (case chainList commandList of
             Inl e \<Rightarrow> Inl e
           | Inr (orders, commandList') \<Rightarrow>
               (case executeOrders_p0 st orders of
                  Inl e \<Rightarrow> Inl e
                | Inr st' \<Rightarrow>
                    (case showTravels_p0 st' commandList' of
                       Inl e \<Rightarrow> Inl e
                     | Inr st'' \<Rightarrow> Inr (st'', commandList'))))
      | Some r \<Rightarrow>
          (case issueWarning st r ''has wrong commands. Only l,r,f,b are valid commands'' of
             Inl e \<Rightarrow> Inl e
           | Inr st' \<Rightarrow> Inr (st', commandList)))"

section \<open>Placement\<close>

text \<open>
  \<^verbatim>\<open>Math.floor(Math.random() * n)\<close> is taken from a stream: \<open>rnd k\<close> is the pair
  \<^verbatim>\<open>{x, y}\<close> drawn in iteration \<open>k\<close> of the \<^verbatim>\<open>while\<close> loop. The loop has no bound on its
  iterations, so it is a partial function: \<open>None\<close> means that it does not return.
  The loop variables are the state, \<^verbatim>\<open>numObst\<close>, the \<^verbatim>\<open>rovers\<close> array and \<^verbatim>\<open>deploys\<close>.
\<close>

type_synonym 'e placing = "'e world \<times> int \<times> ref list \<times> int"

text \<open>The body of the loop of \<^verbatim>\<open>landscapeSetup\<close> in \<^verbatim>\<open>rover.js\<close>, for the drawn pair.\<close>

definition landscapeSetup_body :: "coords \<Rightarrow> entry placing \<Rightarrow> error + entry placing" where
  "landscapeSetup_body pair p =
     (case p of (st, numObst, rvs, deploys) \<Rightarrow>
        (case readSquare (marsMap st) (fst pair) (snd pair) of
           Inl e \<Rightarrow> Inl e
         | Inr c \<Rightarrow>
             if c = Some Empty then
               (if numObst > 0 then
                  (case writeSquare (marsMap st) (fst pair) (snd pair) Obstacle of
                     Inl e \<Rightarrow> Inl e
                   | Inr m' \<Rightarrow> Inr (st\<lparr>marsMap := m'\<rparr>, numObst - 1, rvs, deploys - 1))
                else
                  (case rvs of
                     [] \<Rightarrow> Inl TypeError
                   | _ # _ \<Rightarrow>
                       (case writeSquare (marsMap st) (fst pair) (snd pair) (RoverRef (last rvs)) of
                          Inl e \<Rightarrow> Inl e
                        | Inr m' \<Rightarrow>
                            Inr (st\<lparr>marsMap := m',
                                    rovers := (rovers st)
                                      (last rvs := (rovers st (last rvs))
                                         \<lparr>currentCoords := Some pair,
                                          travelLog := Some [ObjectLiteral pair]\<rparr>)\<rparr>,
                                 numObst, butlast rvs, deploys - 1))))
             else Inr p))"

partial_function (option) landscapeSetup_loop ::
  "(nat \<Rightarrow> coords) \<Rightarrow> nat \<Rightarrow> entry placing \<Rightarrow> (error + entry placing) option" where
  "landscapeSetup_loop rnd k p =
     (if snd (snd (snd p)) > 0 then
        (case landscapeSetup_body (rnd k) p of
           Inl e \<Rightarrow> Some (Inl e)
         | Inr p' \<Rightarrow> landscapeSetup_loop rnd (Suc k) p')
      else Some (Inr p))"

definition landscapeSetup ::
  "(nat \<Rightarrow> coords) \<Rightarrow> entry world \<Rightarrow> int \<Rightarrow> ref list \<Rightarrow> (error + bool \<times> entry world) option" where
  "landscapeSetup rnd st numObst rvs =
     (let deploys = numObst + int (length rvs) in
      if deploys \<le> down (boundaries (marsMap st)) * right (boundaries (marsMap st)) then
        (case landscapeSetup_loop rnd 0 (st, numObst, rvs, deploys) of
           None \<Rightarrow> None
         | Some (Inl e) \<Rightarrow> Some (Inl e)
         | Some (Inr p) \<Rightarrow> Some (Inr (True, fst p)))
      else Some (Inr (False, st)))"

text \<open>The same for \<^verbatim>\<open>part_000\<close>: the square of the pair is \<^verbatim>\<open>map.squares[pair.y][pair.x]\<close>.\<close>

definition landscapeSetup_body_p0 :: "coords \<Rightarrow> coords placing \<Rightarrow> error + coords placing" where
  "landscapeSetup_body_p0 pair p =
     (case p of (st, numObst, rvs, deploys) \<Rightarrow>
        (case readSquare (marsMap st) (snd pair) (fst pair) of
           Inl e \<Rightarrow> Inl e
         | Inr c \<Rightarrow>
             if c = Some Empty then
               (if numObst > 0 then
                  (case writeSquare (marsMap st) (snd pair) (fst pair) Obstacle of
                     Inl e \<Rightarrow> Inl e
                   | Inr m' \<Rightarrow> Inr (st\<lparr>marsMap := m'\<rparr>, numObst - 1, rvs, deploys - 1))
                else
                  (case rvs of
                     [] \<Rightarrow> Inl TypeError
                   | _ # _ \<Rightarrow>
                       (case writeSquare (marsMap st) (snd pair) (fst pair) (RoverRef (last rvs)) of
                          Inl e \<Rightarrow> Inl e
                        | Inr m' \<Rightarrow>
                            Inr (st\<lparr>marsMap := m',
                                    rovers := (rovers st)
                                      (last rvs := (rovers st (last rvs))
                                         \<lparr>currentCoords := Some pair,
                                          travelLog := Some [pair]\<rparr>)\<rparr>,
                                 numObst, butlast rvs, deploys - 1))))
             else Inr p))"

partial_function (option) landscapeSetup_loop_p0 ::
  "(nat \<Rightarrow> coords) \<Rightarrow> nat \<Rightarrow> coords placing \<Rightarrow> (error + coords placing) option" where
  "landscapeSetup_loop_p0 rnd k p =
     (if snd (snd (snd p)) > 0 then
        (case landscapeSetup_body_p0 (rnd k) p of
           Inl e \<Rightarrow> Some (Inl e)
         | Inr p' \<Rightarrow> landscapeSetup_loop_p0 rnd (Suc k) p')
      else Some (Inr p))"

definition landscapeSetup_p0 ::
  "(nat \<Rightarrow> coords) \<Rightarrow> coords world \<Rightarrow> int \<Rightarrow> ref list \<Rightarrow> (error + bool \<times> coords world) option" where
  "landscapeSetup_p0 rnd st numObst rvs =
     (let deploys = numObst + int (length rvs) in
      if deploys \<le> down (boundaries (marsMap st)) * right (boundaries (marsMap st)) then
        (case landscapeSetup_loop_p0 rnd 0 (st, numObst, rvs, deploys) of
           None \<Rightarrow> None
         | Some (Inl e) \<Rightarrow> Some (Inl e)
         | Some (Inr p) \<Rightarrow> Some (Inr (True, fst p)))
      else Some (Inr (False, st)))"

section \<open>The script's own setup\<close>

text \<open>
  The rover objects of the section \<^verbatim>\<open>Rover Setup\<close>, as references into the store they
  start in, and the \<open>10 \<times> 10\<close> map of the section \<^verbatim>\<open>Map Setup\<close> before placement.
\<close>

definition marsRoverAlpha :: ref where
  "marsRoverAlpha = 0"

definition marsRoverBeta :: ref where
  "marsRoverBeta = 1"

definition marsRoverGamma :: ref where
  "marsRoverGamma = 2"

definition roverSetup :: "ref \<Rightarrow> 'e rover" where
  "roverSetup r =
     \<lparr>name = (if r = marsRoverAlpha then ''Alpha'' else if r = marsRoverBeta then ''Beta''
              else ''Gamma''),
      direction = ''N'', currentCoords = None, travelLog = None\<rparr>"

definition unplaced :: "marsmap option \<Rightarrow> 'e world option" where
  "unplaced mo =
     (case mo of
        None \<Rightarrow> None
      | Some m \<Rightarrow> Some \<lparr>marsMap = m, rovers = roverSetup, console = []\<rparr>)"

text \<open>
  Sample streams for the examples: \<open>drawThree\<close> draws \<open>(7, 7)\<close>, then \<open>(2, 2)\<close>, and
  \<open>(5, 5)\<close> ever after; \<open>drawOrigin\<close> always draws \<open>(0, 0)\<close>.
\<close>

definition drawThree :: "nat \<Rightarrow> coords" where
  "drawThree k = (if k = 0 then (7, 7) else if k = 1 then (2, 2) else (5, 5))"

definition drawOrigin :: "nat \<Rightarrow> coords" where
  "drawOrigin k = (0, 0)"

text \<open>
  The state after \<^verbatim>\<open>landscapeSetup\<close> has placed, from \<open>drawThree\<close>, one obstacle and
  the rovers Alpha and Beta on the \<open>10 \<times> 10\<close> map, in each file (\<open>None\<close> if the call does
  not return a state): the obstacle at \<open>(7, 7)\<close>, Beta at \<open>(2, 2)\<close>, Alpha at \<open>(5, 5)\<close>.
\<close>

definition placedWorld :: "entry world option" where
  "placedWorld =
     (case unplaced (generateMap 10 10) of
        None \<Rightarrow> None
      | Some st \<Rightarrow>
          (case landscapeSetup drawThree st 1 [marsRoverAlpha, marsRoverBeta] of
             Some (Inr (True, st')) \<Rightarrow> Some st'
           | _ \<Rightarrow> None))"

definition placedWorld_p0 :: "coords world option" where
  "placedWorld_p0 =
     (case unplaced (generateEmptyMap_p0 10 10) of
        None \<Rightarrow> None
      | Some st \<Rightarrow>
          (case landscapeSetup_p0 drawThree st 1 [marsRoverAlpha, marsRoverBeta] of
             Some (Inr (True, st')) \<Rightarrow> Some st'
           | _ \<Rightarrow> None))"

text \<open>
  The same states written out: the \<open>10 \<times> 10\<close> map with nothing on it, and the map with the
  obstacle at \<open>(7, 7)\<close>, Beta at \<open>(2, 2)\<close> and Alpha at \<open>(5, 5)\<close>.
\<close>

definition bareWorld :: "'e world" where
  "bareWorld =
     \<lparr>marsMap = \<lparr>squares = fillSquares 10 10,
                 boundaries = \<lparr>left = - 1, right = 10, top_bound = - 1, down = 10\<rparr>\<rparr>,
      rovers = roverSetup, console = []\<rparr>"

definition placedState :: "entry world" where
  "placedState =
     \<lparr>marsMap = \<lparr>squares = (fillSquares 10 10)
                   (7 \<mapsto> (fillRow 10)(7 \<mapsto> Obstacle),
                    2 \<mapsto> (fillRow 10)(2 \<mapsto> RoverRef marsRoverBeta),
                    5 \<mapsto> (fillRow 10)(5 \<mapsto> RoverRef marsRoverAlpha)),
                 boundaries = \<lparr>left = - 1, right = 10, top_bound = - 1, down = 10\<rparr>\<rparr>,
      rovers = roverSetup
        (marsRoverBeta := \<lparr>name = ''Beta'', direction = ''N'', currentCoords = Some (2, 2),
                            travelLog = Some [ObjectLiteral (2, 2)]\<rparr>,
         marsRoverAlpha := \<lparr>name = ''Alpha'', direction = ''N'', currentCoords = Some (5, 5),
                             travelLog = Some [ObjectLiteral (5, 5)]\<rparr>),
      console = []\<rparr>"

definition placedState_p0 :: "coords world" where
  "placedState_p0 =
     \<lparr>marsMap = \<lparr>squares = (fillSquares 10 10)
                   (7 \<mapsto> (fillRow 10)(7 \<mapsto> Obstacle),
                    2 \<mapsto> (fillRow 10)(2 \<mapsto> RoverRef marsRoverBeta),
                    5 \<mapsto> (fillRow 10)(5 \<mapsto> RoverRef marsRoverAlpha)),
                 boundaries = \<lparr>left = - 1, right = 10, top_bound = - 1, down = 10\<rparr>\<rparr>,
      rovers = roverSetup
        (marsRoverBeta := \<lparr>name = ''Beta'', direction = ''N'', currentCoords = Some (2, 2),
                            travelLog = Some [(2, 2)]\<rparr>,
         marsRoverAlpha := \<lparr>name = ''Alpha'', direction = ''N'', currentCoords = Some (5, 5),
                             travelLog = Some [(5, 5)]\<rparr>),
      console = []\<rparr>"

text \<open>
  The same placed states with a rover object whose \<^verbatim>\<open>name\<close> is the empty string in the
  place of Alpha.
\<close>

definition namelessState :: "entry world" where
  "namelessState =
     placedState\<lparr>rovers := (rovers placedState)
       (marsRoverAlpha := \<lparr>name = [], direction = ''N'', currentCoords = Some (5, 5),
                           travelLog = Some [ObjectLiteral (5, 5)]\<rparr>)\<rparr>"

definition namelessState_p0 :: "coords world" where
  "namelessState_p0 =
     placedState_p0\<lparr>rovers := (rovers placedState_p0)
       (marsRoverAlpha := \<lparr>name = [], direction = ''N'', currentCoords = Some (5, 5),
                           travelLog = Some [(5, 5)]\<rparr>)\<rparr>"

text \<open>
  The interleaving in the specification's words: for \<open>i\<close> from 0 to \<open>maxLen - 1\<close>, for each
  request of the (sorted) list whose string has a character at index \<open>i\<close>, the pair of
  its rover and that character.
\<close>

definition roundRobin :: "nat \<Rightarrow> request list \<Rightarrow> order list" where
  "roundRobin maxLen reqs =
     concat (map (\<lambda>i. map (\<lambda>p. (rover p, [commands p ! i]))
                          (filter (\<lambda>p. i < length (commands p)) reqs))
                 [0..<maxLen])"

section \<open>Notions used by the theorems\<close>

text \<open>
  The square of a coordinate pair: \<^verbatim>\<open>map.squares[c.x][c.y]\<close> in \<^verbatim>\<open>rover.js\<close>,
  \<^verbatim>\<open>map.squares[c.y][c.x]\<close> in \<^verbatim>\<open>part_000\<close>; \<open>None\<close> where the row or the square does not
  exist.
\<close>

definition squareAt :: "marsmap \<Rightarrow> coords \<Rightarrow> cell option" where
  "squareAt m c = (case squares m (fst c) of None \<Rightarrow> None | Some row \<Rightarrow> row (snd c))"

definition squareAt_p0 :: "marsmap \<Rightarrow> coords \<Rightarrow> cell option" where
  "squareAt_p0 m c = (case squares m (snd c) of None \<Rightarrow> None | Some row \<Rightarrow> row (fst c))"

text \<open>The coordinates strictly inside the boundaries, as \<^verbatim>\<open>haveObstacle\<close> tests them.\<close>

definition insideMap :: "marsmap \<Rightarrow> coords \<Rightarrow> bool" where
  "insideMap m c \<longleftrightarrow>
     top_bound (boundaries m) < fst c \<and> fst c < down (boundaries m) \<and>
     left (boundaries m) < snd c \<and> snd c < right (boundaries m)"

definition insideMap_p0 :: "marsmap \<Rightarrow> coords \<Rightarrow> bool" where
  "insideMap_p0 m c \<longleftrightarrow>
     top_bound (boundaries m) < snd c \<and> snd c < down (boundaries m) \<and>
     left (boundaries m) < fst c \<and> fst c < right (boundaries m)"

text \<open>The coordinates whose square holds an obstacle or a rover.\<close>

definition occupiedCells :: "marsmap \<Rightarrow> coords set" where
  "occupiedCells m = {c. \<exists>v. squareAt m c = Some v \<and> v \<noteq> Empty}"

definition occupiedCells_p0 :: "marsmap \<Rightarrow> coords set" where
  "occupiedCells_p0 m = {c. \<exists>v. squareAt_p0 m c = Some v \<and> v \<noteq> Empty}"

text \<open>
  A map whose squares are exactly the coordinates inside its boundaries, the boundaries
  being those that \<^verbatim>\<open>generateMap\<close> sets.
\<close>

definition rectangular :: "marsmap \<Rightarrow> bool" where
  "rectangular m \<longleftrightarrow>
     top_bound (boundaries m) = - 1 \<and> left (boundaries m) = - 1 \<and>
     (\<forall>c. squareAt m c \<noteq> None \<longleftrightarrow> insideMap m c)"

definition rectangular_p0 :: "marsmap \<Rightarrow> bool" where
  "rectangular_p0 m \<longleftrightarrow>
     top_bound (boundaries m) = - 1 \<and> left (boundaries m) = - 1 \<and>
     (\<forall>c. squareAt_p0 m c \<noteq> None \<longleftrightarrow> insideMap_p0 m c)"

text \<open>
  The invariant of the data model, for the set \<open>R\<close> of the rovers on the map: a square
  that holds a rover holds a rover of \<open>R\<close> whose recorded coordinates are that square's,
  and every rover of \<open>R\<close> has recorded coordinates whose square holds it.
\<close>

definition consistent :: "'e world \<Rightarrow> ref set \<Rightarrow> bool" where
  "consistent st R \<longleftrightarrow>
     (\<forall>c r. squareAt (marsMap st) c = Some (RoverRef r) \<longrightarrow>
        r \<in> R \<and> currentCoords (rovers st r) = Some c) \<and>
     (\<forall>r\<in>R. \<exists>c. currentCoords (rovers st r) = Some c \<and>
        squareAt (marsMap st) c = Some (RoverRef r))"

definition consistent_p0 :: "'e world \<Rightarrow> ref set \<Rightarrow> bool" where
  "consistent_p0 st R \<longleftrightarrow>
     (\<forall>c r. squareAt_p0 (marsMap st) c = Some (RoverRef r) \<longrightarrow>
        r \<in> R \<and> currentCoords (rovers st r) = Some c) \<and>
     (\<forall>r\<in>R. \<exists>c. currentCoords (rovers st r) = Some c \<and>
        squareAt_p0 (marsMap st) c = Some (RoverRef r))"

text \<open>
  The placement loop cut off after \<open>n\<close> iterations: \<open>None\<close> when the loop has not returned
  by then. The loop returns a result exactly when some cut-off does.
\<close>

fun landscapeSetup_upto ::
  "nat \<Rightarrow> (nat \<Rightarrow> coords) \<Rightarrow> nat \<Rightarrow> entry placing \<Rightarrow> (error + entry placing) option" where
  "landscapeSetup_upto 0 rnd k p = (if snd (snd (snd p)) > 0 then None else Some (Inr p))"
| "landscapeSetup_upto (Suc n) rnd k p =
     (if snd (snd (snd p)) > 0 then
        (case landscapeSetup_body (rnd k) p of
           Inl e \<Rightarrow> Some (Inl e)
         | Inr p' \<Rightarrow> landscapeSetup_upto n rnd (Suc k) p')
      else Some (Inr p))"

fun landscapeSetup_upto_p0 ::
  "nat \<Rightarrow> (nat \<Rightarrow> coords) \<Rightarrow> nat \<Rightarrow> coords placing \<Rightarrow> (error + coords placing) option" where
  "landscapeSetup_upto_p0 0 rnd k p = (if snd (snd (snd p)) > 0 then None else Some (Inr p))"
| "landscapeSetup_upto_p0 (Suc n) rnd k p =
     (if snd (snd (snd p)) > 0 then
        (case landscapeSetup_body_p0 (rnd k) p of
           Inl e \<Rightarrow> Some (Inl e)
         | Inr p' \<Rightarrow> landscapeSetup_upto_p0 n rnd (Suc k) p')
      else Some (Inr p))"

text \<open>
  What holds of the loop variables of \<^verbatim>\<open>landscapeSetup\<close> at every iteration, for the sample
  stream \<open>rnd\<close>: the map keeps its squares and boundaries and the console its lines,
  every sample is inside the map, \<^verbatim>\<open>numObst\<close> is not negative, \<^verbatim>\<open>deploys\<close> is what is left
  to place, the occupied squares and \<^verbatim>\<open>deploys\<close> add up to \<open>amount\<close>, and every rover of the
  list \<open>rvs0\<close> given to the call is still in the \<^verbatim>\<open>rovers\<close> array or is on the map, with
  its position and its one-entry history at its square.
\<close>

definition placingInv ::
  "(nat \<Rightarrow> coords) \<Rightarrow> boundaries \<Rightarrow> event list \<Rightarrow> int \<Rightarrow> ref list \<Rightarrow> entry placing \<Rightarrow> bool" where
  "placingInv rnd B C amount rvs0 p \<longleftrightarrow>
     (case p of (st, numObst, rvs, deploys) \<Rightarrow>
        rectangular (marsMap st) \<and> boundaries (marsMap st) = B \<and> console st = C \<and>
        (\<forall>k. insideMap (marsMap st) (rnd k)) \<and>
        0 \<le> numObst \<and> deploys = numObst + int (length rvs) \<and>
        int (card (occupiedCells (marsMap st))) + deploys = amount \<and>
        (\<forall>r\<in>set rvs0. r \<in> set rvs \<or>
           (\<exists>c. currentCoords (rovers st r) = Some c \<and>
                travelLog (rovers st r) = Some [ObjectLiteral c] \<and>
                squareAt (marsMap st) c = Some (RoverRef r))))"

definition placingInv_p0 ::
  "(nat \<Rightarrow> coords) \<Rightarrow> boundaries \<Rightarrow> event list \<Rightarrow> int \<Rightarrow> ref list \<Rightarrow> coords placing \<Rightarrow> bool" where
  "placingInv_p0 rnd B C amount rvs0 p \<longleftrightarrow>
     (case p of (st, numObst, rvs, deploys) \<Rightarrow>
        rectangular_p0 (marsMap st) \<and> boundaries (marsMap st) = B \<and> console st = C \<and>
        (\<forall>k. insideMap_p0 (marsMap st) (rnd k)) \<and>
        0 \<le> numObst \<and> deploys = numObst + int (length rvs) \<and>
        int (card (occupiedCells_p0 (marsMap st))) + deploys = amount \<and>
        (\<forall>r\<in>set rvs0. r \<in> set rvs \<or>
           (\<exists>c. currentCoords (rovers st r) = Some c \<and>
                travelLog (rovers st r) = Some [c] \<and>
                squareAt_p0 (marsMap st) c = Some (RoverRef r))))"

text \<open>
  The same for the invariant of the data model, when the rovers of the list are distinct
  and the map holds no rover when the call begins: the rovers on the map are those of
  the list that have left the \<^verbatim>\<open>rovers\<close> array.
\<close>

definition placingConsistent :: "ref list \<Rightarrow> 'e placing \<Rightarrow> bool" where
  "placingConsistent rvs0 p \<longleftrightarrow>
     (case p of (st, numObst, rvs, deploys) \<Rightarrow>
        distinct rvs \<and> set rvs \<subseteq> set rvs0 \<and> consistent st (set rvs0 - set rvs))"

definition placingConsistent_p0 :: "ref list \<Rightarrow> 'e placing \<Rightarrow> bool" where
  "placingConsistent_p0 rvs0 p \<longleftrightarrow>
     (case p of (st, numObst, rvs, deploys) \<Rightarrow>
        distinct rvs \<and> set rvs \<subseteq> set rvs0 \<and> consistent_p0 st (set rvs0 - set rvs))"

section \<open>Theorems\<close>

subsection \<open>The empty map, the names and the example states\<close>

lemma fillRow_apply: "fillRow n j = (if 0 \<le> j \<and> j < int n then Some Empty else None)"
  by (induction n) auto

lemma fillSquares_apply:
  "fillSquares n cols i = (if 0 \<le> i \<and> i < int n then Some (fillRow cols) else None)"
  by (induction n) auto

lemma capitalize_names [simp]:
  "capitalize ''Alpha'' = Inr ''Alpha''" "capitalize ''Beta'' = Inr ''Beta''"
  "capitalize ''Gamma'' = Inr ''Gamma''"
  by (simp_all add: capitalize_def toUpperCase_def toLowerCase_def)

lemma placedWorld_eq:
  "placedWorld = Some
     \<lparr>marsMap = \<lparr>squares = (fillSquares 10 10)
                   (7 \<mapsto> (fillRow 10)(7 \<mapsto> Obstacle), 2 \<mapsto> (fillRow 10)(2 \<mapsto> RoverRef 1),
                    5 \<mapsto> (fillRow 10)(5 \<mapsto> RoverRef 0)),
                 boundaries = \<lparr>left = - 1, right = 10, top_bound = - 1, down = 10\<rparr>\<rparr>,
      rovers = roverSetup
        (1 := \<lparr>name = ''Beta'', direction = ''N'', currentCoords = Some (2, 2),
                travelLog = Some [ObjectLiteral (2, 2)]\<rparr>,
         0 := \<lparr>name = ''Alpha'', direction = ''N'', currentCoords = Some (5, 5),
                travelLog = Some [ObjectLiteral (5, 5)]\<rparr>),
      console = []\<rparr>"
  by (simp add: placedWorld_def unplaced_def generateMap_def landscapeSetup_def
      landscapeSetup_loop.simps landscapeSetup_body_def readSquare_def writeSquare_def
      fillSquares_apply fillRow_apply drawThree_def roverSetup_def marsRoverAlpha_def
      marsRoverBeta_def)

lemma placedWorld_p0_eq:
  "placedWorld_p0 = Some
     \<lparr>marsMap = \<lparr>squares = (fillSquares 10 10)
                   (7 \<mapsto> (fillRow 10)(7 \<mapsto> Obstacle), 2 \<mapsto> (fillRow 10)(2 \<mapsto> RoverRef 1),
                    5 \<mapsto> (fillRow 10)(5 \<mapsto> RoverRef 0)),
                 boundaries = \<lparr>left = - 1, right = 10, top_bound = - 1, down = 10\<rparr>\<rparr>,
      rovers = roverSetup
        (1 := \<lparr>name = ''Beta'', direction = ''N'', currentCoords = Some (2, 2),
                travelLog = Some [(2, 2)]\<rparr>,
         0 := \<lparr>name = ''Alpha'', direction = ''N'', currentCoords = Some (5, 5),
                travelLog = Some [(5, 5)]\<rparr>),
      console = []\<rparr>"
  by (simp add: placedWorld_p0_def unplaced_def generateEmptyMap_p0_def landscapeSetup_p0_def
      landscapeSetup_loop_p0.simps landscapeSetup_body_p0_def readSquare_def writeSquare_def
      fillSquares_apply fillRow_apply drawThree_def roverSetup_def marsRoverAlpha_def
      marsRoverBeta_def)

text \<open>The two example states, field by field.\<close>

lemma placedWorld_fields:
  obtains st where "placedWorld = Some st"
    and "boundaries (marsMap st) = \<lparr>left = - 1, right = 10, top_bound = - 1, down = 10\<rparr>"
    and "squares (marsMap st) = (fillSquares 10 10)
           (7 \<mapsto> (fillRow 10)(7 \<mapsto> Obstacle), 2 \<mapsto> (fillRow 10)(2 \<mapsto> RoverRef 1),
            5 \<mapsto> (fillRow 10)(5 \<mapsto> RoverRef 0))"
    and "rovers st marsRoverAlpha = \<lparr>name = ''Alpha'', direction = ''N'',
           currentCoords = Some (5, 5), travelLog = Some [ObjectLiteral (5, 5)]\<rparr>"
    and "rovers st marsRoverBeta = \<lparr>name = ''Beta'', direction = ''N'',
           currentCoords = Some (2, 2), travelLog = Some [ObjectLiteral (2, 2)]\<rparr>"
    and "console st = []"
  using placedWorld_eq by (simp add: marsRoverAlpha_def marsRoverBeta_def)

lemma placedWorld_p0_fields:
  obtains st where "placedWorld_p0 = Some st"
    and "boundaries (marsMap st) = \<lparr>left = - 1, right = 10, top_bound = - 1, down = 10\<rparr>"
    and "squares (marsMap st) = (fillSquares 10 10)
           (7 \<mapsto> (fillRow 10)(7 \<mapsto> Obstacle), 2 \<mapsto> (fillRow 10)(2 \<mapsto> RoverRef 1),
            5 \<mapsto> (fillRow 10)(5 \<mapsto> RoverRef 0))"
    and "rovers st marsRoverAlpha = \<lparr>name = ''Alpha'', direction = ''N'',
           currentCoords = Some (5, 5), travelLog = Some [(5, 5)]\<rparr>"
    and "rovers st marsRoverBeta = \<lparr>name = ''Beta'', direction = ''N'',
           currentCoords = Some (2, 2), travelLog = Some [(2, 2)]\<rparr>"
    and "console st = []"
  using placedWorld_p0_eq by (simp add: marsRoverAlpha_def marsRoverBeta_def)

lemma unplaced_bareWorld:
  "unplaced (generateMap 10 10) = Some bareWorld"
  "unplaced (generateEmptyMap_p0 10 10) = Some bareWorld"
  by (simp_all add: unplaced_def generateMap_def generateEmptyMap_p0_def bareWorld_def)

lemma placedWorld_placedState: "placedWorld = Some placedState"
  by (simp add: placedWorld_eq placedState_def marsRoverAlpha_def marsRoverBeta_def)

lemma placedWorld_p0_placedState: "placedWorld_p0 = Some placedState_p0"
  by (simp add: placedWorld_p0_eq placedState_p0_def marsRoverAlpha_def marsRoverBeta_def)

lemma capitalize_empty: "capitalize [] = Inl TypeError"
  by (simp add: capitalize_def)

lemma capitalize_nonempty: "word \<noteq> [] \<Longrightarrow> \<exists>n. capitalize word = Inr n"
  by (cases word) (simp_all add: capitalize_def)

subsection \<open>Turning\<close>

lemma turnRight_cases:
  "turnRight rv = rv\<lparr>direction :=
      (if direction rv = ''N'' then ''E'' else if direction rv = ''E'' then ''S''
       else if direction rv = ''S'' then ''W'' else if direction rv = ''W'' then ''N''
       else direction rv)\<rparr>"
  by (simp add: turnRight_def)

lemma turnLeft_cases:
  "turnLeft rv = rv\<lparr>direction :=
      (if direction rv = ''N'' then ''W'' else if direction rv = ''E'' then ''N''
       else if direction rv = ''S'' then ''E'' else if direction rv = ''W'' then ''S''
       else direction rv)\<rparr>"
  by (simp add: turnLeft_def)

lemma direction_cases:
  obtains "direction rv = ''N''" | "direction rv = ''E''" | "direction rv = ''S''"
    | "direction rv = ''W''" | "direction rv \<notin> {''N'', ''E'', ''S'', ''W''}"
  by auto

lemma four_right_turns: "turnRight (turnRight (turnRight (turnRight rv))) = rv"
  by (cases rv rule: direction_cases) (simp_all add: turnRight_cases)

lemma four_left_turns: "turnLeft (turnLeft (turnLeft (turnLeft rv))) = rv"
  by (cases rv rule: direction_cases) (simp_all add: turnLeft_cases)

lemma left_after_right: "turnLeft (turnRight rv) = rv"
  by (cases rv rule: direction_cases) (simp_all add: turnLeft_cases turnRight_cases)

lemma right_after_left: "turnRight (turnLeft rv) = rv"
  by (cases rv rule: direction_cases) (simp_all add: turnLeft_cases turnRight_cases)

lemma right_turn_cycle:
  "direction (turnRight (rv\<lparr>direction := ''N''\<rparr>)) = ''E'' \<and>
   direction (turnRight (rv\<lparr>direction := ''E''\<rparr>)) = ''S'' \<and>
   direction (turnRight (rv\<lparr>direction := ''S''\<rparr>)) = ''W'' \<and>
   direction (turnRight (rv\<lparr>direction := ''W''\<rparr>)) = ''N''"
  by (simp add: turnRight_cases)

lemma left_turn_cycle:
  "direction (turnLeft (rv\<lparr>direction := ''N''\<rparr>)) = ''W'' \<and>
   direction (turnLeft (rv\<lparr>direction := ''W''\<rparr>)) = ''S'' \<and>
   direction (turnLeft (rv\<lparr>direction := ''S''\<rparr>)) = ''E'' \<and>
   direction (turnLeft (rv\<lparr>direction := ''E''\<rparr>)) = ''N''"
  by (simp add: turnLeft_cases)

lemma turn_changes_direction_only:
  "turnRight rv = rv\<lparr>direction := direction (turnRight rv)\<rparr> \<and>
   turnLeft rv = rv\<lparr>direction := direction (turnLeft rv)\<rparr>"
  by (simp add: turnLeft_cases turnRight_cases)

lemma turn_ignores_position:
  "turnRight (rv\<lparr>currentCoords := c\<rparr>) = (turnRight rv)\<lparr>currentCoords := c\<rparr> \<and>
   turnLeft (rv\<lparr>currentCoords := c\<rparr>) = (turnLeft rv)\<lparr>currentCoords := c\<rparr>"
  by (simp add: turnLeft_cases turnRight_cases)

lemma turn_frame [simp]:
  "name (turnLeft rv) = name rv" "currentCoords (turnLeft rv) = currentCoords rv"
  "travelLog (turnLeft rv) = travelLog rv"
  "name (turnRight rv) = name rv" "currentCoords (turnRight rv) = currentCoords rv"
  "travelLog (turnRight rv) = travelLog rv"
  by (simp_all add: turnLeft_cases turnRight_cases)

text \<open>
  C9. For every heading in N, E, S, W, four right turns, or four left turns, give the
  heading back, and a left turn after a right turn, or a right turn after a left turn, is
  the identity. The right turn is the cycle N, E, S, W, N and the left turn its inverse.
  A turn takes the rover object alone (neither the map nor its boundaries), changes no
  field but \<open>direction\<close>, and the new direction does not depend on the position. All of
  this holds of any rover object; a direction outside the four is left as it is.
\<close>

theorem turns_are_a_four_cycle:
  "turnRight (turnRight (turnRight (turnRight rv))) = rv \<and>
   turnLeft (turnLeft (turnLeft (turnLeft rv))) = rv \<and>
   turnLeft (turnRight rv) = rv \<and>
   turnRight (turnLeft rv) = rv \<and>
   direction (turnRight (rv\<lparr>direction := ''N''\<rparr>)) = ''E'' \<and>
   direction (turnRight (rv\<lparr>direction := ''E''\<rparr>)) = ''S'' \<and>
   direction (turnRight (rv\<lparr>direction := ''S''\<rparr>)) = ''W'' \<and>
   direction (turnRight (rv\<lparr>direction := ''W''\<rparr>)) = ''N'' \<and>
   direction (turnLeft (rv\<lparr>direction := ''N''\<rparr>)) = ''W'' \<and>
   direction (turnLeft (rv\<lparr>direction := ''W''\<rparr>)) = ''S'' \<and>
   direction (turnLeft (rv\<lparr>direction := ''S''\<rparr>)) = ''E'' \<and>
   direction (turnLeft (rv\<lparr>direction := ''E''\<rparr>)) = ''N'' \<and>
   turnRight rv = rv\<lparr>direction := direction (turnRight rv)\<rparr> \<and>
   turnLeft rv = rv\<lparr>direction := direction (turnLeft rv)\<rparr> \<and>
   turnRight (rv\<lparr>currentCoords := c\<rparr>) = (turnRight rv)\<lparr>currentCoords := c\<rparr> \<and>
   turnLeft (rv\<lparr>currentCoords := c\<rparr>) = (turnLeft rv)\<lparr>currentCoords := c\<rparr>"
  using four_right_turns [of rv] four_left_turns [of rv] left_after_right [of rv]
    right_after_left [of rv] right_turn_cycle [of rv] left_turn_cycle [of rv]
    turn_changes_direction_only [of rv] turn_ignores_position [where rv = rv and c = c]
  by blast

subsection \<open>Destinations\<close>

text \<open>
  C1, as the specification states it, fails on \<^verbatim>\<open>rover.js\<close>: there \<open>x\<close> indexes the rows
  of the map, and a forward move of a rover heading N from \<open>(5, 5)\<close> targets \<open>(4, 5)\<close>,
  not \<open>(5, 4)\<close>.
\<close>

theorem forward_north_rover_js_decrements_x:
  "forwardDestination (5, 5) ''N'' = (4, 5) \<and> forwardDestination (5, 5) ''N'' \<noteq> (5, 5 - 1)"
  by (simp add: forwardDestination_def)

text \<open>
  C1, amended. In \<^verbatim>\<open>part_000\<close> a forward move targets the cell one step along the
  heading's unit vector, with N decrementing \<open>y\<close>, E incrementing \<open>x\<close>, S incrementing \<open>y\<close>
  and W decrementing \<open>x\<close>. In \<^verbatim>\<open>rover.js\<close> the two coordinates change places: N decrements
  \<open>x\<close>, E increments \<open>y\<close>, S increments \<open>x\<close> and W decrements \<open>y\<close>. In both files, for every
  position and heading, the offset of the backward move's destination is the exact
  negation of the offset of the forward move's destination.
\<close>

theorem destinations_follow_the_heading:
  "forwardDestination_p0 (x, y) ''N'' = (x, y - 1) \<and>
   forwardDestination_p0 (x, y) ''E'' = (x + 1, y) \<and>
   forwardDestination_p0 (x, y) ''S'' = (x, y + 1) \<and>
   forwardDestination_p0 (x, y) ''W'' = (x - 1, y) \<and>
   forwardDestination (x, y) ''N'' = (x - 1, y) \<and>
   forwardDestination (x, y) ''E'' = (x, y + 1) \<and>
   forwardDestination (x, y) ''S'' = (x + 1, y) \<and>
   forwardDestination (x, y) ''W'' = (x, y - 1) \<and>
   fst (backwardDestination_p0 (x, y) d) - x = - (fst (forwardDestination_p0 (x, y) d) - x) \<and>
   snd (backwardDestination_p0 (x, y) d) - y = - (snd (forwardDestination_p0 (x, y) d) - y) \<and>
   fst (backwardDestination (x, y) d) - x = - (fst (forwardDestination (x, y) d) - x) \<and>
   snd (backwardDestination (x, y) d) - y = - (snd (forwardDestination (x, y) d) - y)"
  by (simp add: forwardDestination_p0_def backwardDestination_p0_def
      forwardDestination_def backwardDestination_def)

subsection \<open>Evaluating a run\<close>

text \<open>The equations that evaluate a call on a concrete state.\<close>

lemmas run_defs =
  commandRovers_def commandRovers_p0_def hasInvalidCommands_def hasWrongCommand_def
  chainList_def sortByLength_def charAt_def executeOrder_def executeOrder_p0_def
  moveForward_def moveForward_p0_def moveBackwards_def moveBackwards_p0_def
  forwardDestination_def forwardDestination_p0_def backwardDestination_def
  backwardDestination_p0_def repositionRover_def repositionRover_p0_def
  haveObstacle_def haveObstacle_p0_def readSquare_def writeSquare_def issueWarning_def
  showTravel_def showTravel_p0_def readLog_def readEntry_def turnLeft_cases turnRight_cases
  fillSquares_apply fillRow_apply marsRoverAlpha_def marsRoverBeta_def marsRoverGamma_def
  roverSetup_def Let_def

subsection \<open>Rejected and accepted moves\<close>

lemma repositionRover_out_of_bounds:
  assumes "capitalize (name (rovers st r)) = Inr n"
    and "fst d \<le> top_bound (boundaries (marsMap st)) \<or> fst d \<ge> down (boundaries (marsMap st)) \<or>
         snd d \<le> left (boundaries (marsMap st)) \<or> snd d \<ge> right (boundaries (marsMap st))"
  shows "repositionRover st r d = Inr (st\<lparr>console := console st @ [Warning n ''destination out of bounds'']\<rparr>)"
  using assms by (simp add: repositionRover_def haveObstacle_def issueWarning_def)

lemma repositionRover_collision:
  assumes "capitalize (name (rovers st r)) = Inr n"
    and "\<not> (fst d \<le> top_bound (boundaries (marsMap st)) \<or> fst d \<ge> down (boundaries (marsMap st)) \<or>
         snd d \<le> left (boundaries (marsMap st)) \<or> snd d \<ge> right (boundaries (marsMap st)))"
    and "readSquare (marsMap st) (fst d) (snd d) = Inr c" and "c \<noteq> Some Empty"
  shows "repositionRover st r d = Inr (st\<lparr>console := console st @ [Warning n ''collision warning'']\<rparr>)"
  using assms by (simp add: repositionRover_def haveObstacle_def issueWarning_def)

lemma repositionRover_accepted:
  assumes "\<not> (fst d \<le> top_bound (boundaries (marsMap st)) \<or> fst d \<ge> down (boundaries (marsMap st)) \<or>
         snd d \<le> left (boundaries (marsMap st)) \<or> snd d \<ge> right (boundaries (marsMap st)))"
    and "readSquare (marsMap st) (fst d) (snd d) = Inr (Some Empty)"
    and "repositionRover st r d = Inr st'"
  shows "currentCoords (rovers st' r) = Some d \<and> console st' = console st"
  using assms by (auto simp add: repositionRover_def haveObstacle_def split: option.splits sum.splits)

lemma repositionRover_p0_out_of_bounds:
  assumes "capitalize (name (rovers st r)) = Inr n"
    and "snd d \<le> top_bound (boundaries (marsMap st)) \<or> snd d \<ge> down (boundaries (marsMap st)) \<or>
         fst d \<le> left (boundaries (marsMap st)) \<or> fst d \<ge> right (boundaries (marsMap st))"
  shows "repositionRover_p0 st r d = Inr (st\<lparr>console := console st @ [Warning n ''destination out of bounds'']\<rparr>)"
  using assms by (simp add: repositionRover_p0_def haveObstacle_p0_def issueWarning_def)

lemma repositionRover_p0_collision:
  assumes "capitalize (name (rovers st r)) = Inr n"
    and "\<not> (snd d \<le> top_bound (boundaries (marsMap st)) \<or> snd d \<ge> down (boundaries (marsMap st)) \<or>
         fst d \<le> left (boundaries (marsMap st)) \<or> fst d \<ge> right (boundaries (marsMap st)))"
    and "readSquare (marsMap st) (snd d) (fst d) = Inr c" and "c \<noteq> Some Empty"
  shows "repositionRover_p0 st r d = Inr (st\<lparr>console := console st @ [Warning n ''collision warning'']\<rparr>)"
  using assms by (simp add: repositionRover_p0_def haveObstacle_p0_def issueWarning_def)

lemma repositionRover_p0_accepted:
  assumes "\<not> (snd d \<le> top_bound (boundaries (marsMap st)) \<or> snd d \<ge> down (boundaries (marsMap st)) \<or>
         fst d \<le> left (boundaries (marsMap st)) \<or> fst d \<ge> right (boundaries (marsMap st)))"
    and "readSquare (marsMap st) (snd d) (fst d) = Inr (Some Empty)"
    and "repositionRover_p0 st r d = Inr st'"
  shows "currentCoords (rovers st' r) = Some d \<and> console st' = console st"
  using assms by (auto simp add: repositionRover_p0_def haveObstacle_p0_def split: option.splits sum.splits)

text \<open>
  C3, as the specification states it, fails for a rover whose name is the empty string:
  \<^verbatim>\<open>issueWarning\<close> calls \<^verbatim>\<open>capitalize\<close>, which reads \<^verbatim>\<open>word[0].toUpperCase()\<close>. On the
  \<open>10 \<times> 10\<close> map with the obstacle at \<open>(7, 7)\<close> and such a rover at \<open>(5, 5)\<close>, a move of
  that rover to a destination at \<open>top\<close>, or to the square of the obstacle, raises a
  TypeError: no warning is emitted. In both files.
\<close>

theorem nameless_rover_rejected_move_raises:
  "name (rovers namelessState marsRoverAlpha) = [] \<and>
   fst (- 1, 5 :: int) \<le> top_bound (boundaries (marsMap namelessState)) \<and>
   repositionRover namelessState marsRoverAlpha (- 1, 5) = Inl TypeError \<and>
   readSquare (marsMap namelessState) 7 7 = Inr (Some Obstacle) \<and>
   repositionRover namelessState marsRoverAlpha (7, 7) = Inl TypeError \<and>
   name (rovers namelessState_p0 marsRoverAlpha) = [] \<and>
   snd (5 :: int, - 1) \<le> top_bound (boundaries (marsMap namelessState_p0)) \<and>
   repositionRover_p0 namelessState_p0 marsRoverAlpha (5, - 1) = Inl TypeError \<and>
   readSquare (marsMap namelessState_p0) 7 7 = Inr (Some Obstacle) \<and>
   repositionRover_p0 namelessState_p0 marsRoverAlpha (7, 7) = Inl TypeError"
  by (simp add: namelessState_def namelessState_p0_def placedState_def placedState_p0_def
      repositionRover_def repositionRover_p0_def haveObstacle_def haveObstacle_p0_def
      issueWarning_def capitalize_def readSquare_def)

text \<open>
  C3, amended. For every move attempt \<^verbatim>\<open>repositionRover(map, rover, destination)\<close> of a
  rover whose name is not empty, in both files, \<open>n\<close> being the name as \<^verbatim>\<open>capitalize\<close>
  returns it: if the destination lies on or past a boundary (the row coordinate at or
  beyond \<open>top\<close> or \<open>down\<close>, the column coordinate at or beyond \<open>left\<close> or \<open>right\<close>), the
  call returns with the warning \<^verbatim>\<open>destination out of bounds\<close> appended to the console
  and nothing else changed: the grid, the rover's position and its history are those of
  before. Otherwise, if the destination square holds anything but \<^verbatim>\<open>0\<close> (an obstacle or
  a rover), the call returns with the warning \<^verbatim>\<open>collision warning\<close> and nothing else
  changed. Otherwise a call that returns has put the rover at the destination itself,
  with no warning: the destination is never clamped.
\<close>

theorem rejected_move_warns_and_changes_nothing:
  fixes st :: "entry world" and st0 :: "coords world"
  assumes "name (rovers st r) \<noteq> []"
    and "name (rovers st0 r0) \<noteq> []"
  shows
    "\<exists>n n0. capitalize (name (rovers st r)) = Inr n \<and>
       capitalize (name (rovers st0 r0)) = Inr n0 \<and>
     (fst d \<le> top_bound (boundaries (marsMap st)) \<or> fst d \<ge> down (boundaries (marsMap st)) \<or>
      snd d \<le> left (boundaries (marsMap st)) \<or> snd d \<ge> right (boundaries (marsMap st)) \<longrightarrow>
        repositionRover st r d =
          Inr (st\<lparr>console := console st @ [Warning n ''destination out of bounds'']\<rparr>)) \<and>
     (\<not> (fst d \<le> top_bound (boundaries (marsMap st)) \<or> fst d \<ge> down (boundaries (marsMap st)) \<or>
         snd d \<le> left (boundaries (marsMap st)) \<or> snd d \<ge> right (boundaries (marsMap st))) \<and>
      readSquare (marsMap st) (fst d) (snd d) = Inr c \<and> c \<noteq> Some Empty \<longrightarrow>
        repositionRover st r d =
          Inr (st\<lparr>console := console st @ [Warning n ''collision warning'']\<rparr>)) \<and>
     (\<not> (fst d \<le> top_bound (boundaries (marsMap st)) \<or> fst d \<ge> down (boundaries (marsMap st)) \<or>
         snd d \<le> left (boundaries (marsMap st)) \<or> snd d \<ge> right (boundaries (marsMap st))) \<and>
      readSquare (marsMap st) (fst d) (snd d) = Inr (Some Empty) \<and>
      repositionRover st r d = Inr st' \<longrightarrow>
        currentCoords (rovers st' r) = Some d \<and> console st' = console st) \<and>
     (snd d0 \<le> top_bound (boundaries (marsMap st0)) \<or> snd d0 \<ge> down (boundaries (marsMap st0)) \<or>
      fst d0 \<le> left (boundaries (marsMap st0)) \<or> fst d0 \<ge> right (boundaries (marsMap st0)) \<longrightarrow>
        repositionRover_p0 st0 r0 d0 =
          Inr (st0\<lparr>console := console st0 @ [Warning n0 ''destination out of bounds'']\<rparr>)) \<and>
     (\<not> (snd d0 \<le> top_bound (boundaries (marsMap st0)) \<or> snd d0 \<ge> down (boundaries (marsMap st0)) \<or>
         fst d0 \<le> left (boundaries (marsMap st0)) \<or> fst d0 \<ge> right (boundaries (marsMap st0))) \<and>
      readSquare (marsMap st0) (snd d0) (fst d0) = Inr c0 \<and> c0 \<noteq> Some Empty \<longrightarrow>
        repositionRover_p0 st0 r0 d0 =
          Inr (st0\<lparr>console := console st0 @ [Warning n0 ''collision warning'']\<rparr>)) \<and>
     (\<not> (snd d0 \<le> top_bound (boundaries (marsMap st0)) \<or> snd d0 \<ge> down (boundaries (marsMap st0)) \<or>
         fst d0 \<le> left (boundaries (marsMap st0)) \<or> fst d0 \<ge> right (boundaries (marsMap st0))) \<and>
      readSquare (marsMap st0) (snd d0) (fst d0) = Inr (Some Empty) \<and>
      repositionRover_p0 st0 r0 d0 = Inr st0' \<longrightarrow>
        currentCoords (rovers st0' r0) = Some d0 \<and> console st0' = console st0)"
proof -
  from capitalize_nonempty [OF assms(1)] obtain n
    where n: "capitalize (name (rovers st r)) = Inr n"
    by blast
  from capitalize_nonempty [OF assms(2)] obtain n0
    where n0: "capitalize (name (rovers st0 r0)) = Inr n0"
    by blast
  have body:
    "(fst d \<le> top_bound (boundaries (marsMap st)) \<or> fst d \<ge> down (boundaries (marsMap st)) \<or>
      snd d \<le> left (boundaries (marsMap st)) \<or> snd d \<ge> right (boundaries (marsMap st)) \<longrightarrow>
        repositionRover st r d =
          Inr (st\<lparr>console := console st @ [Warning n ''destination out of bounds'']\<rparr>)) \<and>
     (\<not> (fst d \<le> top_bound (boundaries (marsMap st)) \<or> fst d \<ge> down (boundaries (marsMap st)) \<or>
         snd d \<le> left (boundaries (marsMap st)) \<or> snd d \<ge> right (boundaries (marsMap st))) \<and>
      readSquare (marsMap st) (fst d) (snd d) = Inr c \<and> c \<noteq> Some Empty \<longrightarrow>
        repositionRover st r d =
          Inr (st\<lparr>console := console st @ [Warning n ''collision warning'']\<rparr>)) \<and>
     (\<not> (fst d \<le> top_bound (boundaries (marsMap st)) \<or> fst d \<ge> down (boundaries (marsMap st)) \<or>
         snd d \<le> left (boundaries (marsMap st)) \<or> snd d \<ge> right (boundaries (marsMap st))) \<and>
      readSquare (marsMap st) (fst d) (snd d) = Inr (Some Empty) \<and>
      repositionRover st r d = Inr st' \<longrightarrow>
        currentCoords (rovers st' r) = Some d \<and> console st' = console st) \<and>
     (snd d0 \<le> top_bound (boundaries (marsMap st0)) \<or> snd d0 \<ge> down (boundaries (marsMap st0)) \<or>
      fst d0 \<le> left (boundaries (marsMap st0)) \<or> fst d0 \<ge> right (boundaries (marsMap st0)) \<longrightarrow>
        repositionRover_p0 st0 r0 d0 =
          Inr (st0\<lparr>console := console st0 @ [Warning n0 ''destination out of bounds'']\<rparr>)) \<and>
     (\<not> (snd d0 \<le> top_bound (boundaries (marsMap st0)) \<or> snd d0 \<ge> down (boundaries (marsMap st0)) \<or>
         fst d0 \<le> left (boundaries (marsMap st0)) \<or> fst d0 \<ge> right (boundaries (marsMap st0))) \<and>
      readSquare (marsMap st0) (snd d0) (fst d0) = Inr c0 \<and> c0 \<noteq> Some Empty \<longrightarrow>
        repositionRover_p0 st0 r0 d0 =
          Inr (st0\<lparr>console := console st0 @ [Warning n0 ''collision warning'']\<rparr>)) \<and>
     (\<not> (snd d0 \<le> top_bound (boundaries (marsMap st0)) \<or> snd d0 \<ge> down (boundaries (marsMap st0)) \<or>
         fst d0 \<le> left (boundaries (marsMap st0)) \<or> fst d0 \<ge> right (boundaries (marsMap st0))) \<and>
      readSquare (marsMap st0) (snd d0) (fst d0) = Inr (Some Empty) \<and>
      repositionRover_p0 st0 r0 d0 = Inr st0' \<longrightarrow>
        currentCoords (rovers st0' r0) = Some d0 \<and> console st0' = console st0)"
    using repositionRover_out_of_bounds [OF n, of d]
      repositionRover_collision [OF n, of d c]
      repositionRover_accepted [of d st r st']
      repositionRover_p0_out_of_bounds [OF n0, of d0]
      repositionRover_p0_collision [OF n0, of d0 c0]
      repositionRover_p0_accepted [of d0 st0 r0 st0']
    by blast
  show ?thesis
    by (rule exI [of _ n], rule exI [of _ n0]) (rule conjI [OF n conjI [OF n0 body]])
qed

text \<open>
  An instance on the \<open>10 \<times> 10\<close> map with the obstacle at \<open>(7, 7)\<close>, Beta at \<open>(2, 2)\<close> and
  Alpha at \<open>(5, 5)\<close>: for Alpha, a destination at \<open>top\<close>, one at \<open>right\<close>, the obstacle's
  square, Beta's square and a free square, in each file.
\<close>

theorem rejected_move_witness:
  "\<exists>st st0. placedWorld = Some st \<and> placedWorld_p0 = Some st0 \<and>
     repositionRover st marsRoverAlpha (- 1, 5) =
       Inr (st\<lparr>console := [Warning ''Alpha'' ''destination out of bounds'']\<rparr>) \<and>
     repositionRover st marsRoverAlpha (5, 10) =
       Inr (st\<lparr>console := [Warning ''Alpha'' ''destination out of bounds'']\<rparr>) \<and>
     repositionRover st marsRoverAlpha (7, 7) =
       Inr (st\<lparr>console := [Warning ''Alpha'' ''collision warning'']\<rparr>) \<and>
     repositionRover st marsRoverAlpha (2, 2) =
       Inr (st\<lparr>console := [Warning ''Alpha'' ''collision warning'']\<rparr>) \<and>
     (\<exists>st'. repositionRover st marsRoverAlpha (4, 5) = Inr st' \<and>
        currentCoords (rovers st' marsRoverAlpha) = Some (4, 5) \<and> console st' = []) \<and>
     repositionRover_p0 st0 marsRoverAlpha (5, - 1) =
       Inr (st0\<lparr>console := [Warning ''Alpha'' ''destination out of bounds'']\<rparr>) \<and>
     repositionRover_p0 st0 marsRoverAlpha (10, 5) =
       Inr (st0\<lparr>console := [Warning ''Alpha'' ''destination out of bounds'']\<rparr>) \<and>
     repositionRover_p0 st0 marsRoverAlpha (7, 7) =
       Inr (st0\<lparr>console := [Warning ''Alpha'' ''collision warning'']\<rparr>) \<and>
     repositionRover_p0 st0 marsRoverAlpha (2, 2) =
       Inr (st0\<lparr>console := [Warning ''Alpha'' ''collision warning'']\<rparr>) \<and>
     (\<exists>st'. repositionRover_p0 st0 marsRoverAlpha (5, 4) = Inr st' \<and>
        currentCoords (rovers st' marsRoverAlpha) = Some (5, 4) \<and> console st' = [])"
proof -
  obtain st where st: "placedWorld = Some st"
    and bounds: "boundaries (marsMap st) = \<lparr>left = - 1, right = 10, top_bound = - 1, down = 10\<rparr>"
    and sq: "squares (marsMap st) = (fillSquares 10 10)
           (7 \<mapsto> (fillRow 10)(7 \<mapsto> Obstacle), 2 \<mapsto> (fillRow 10)(2 \<mapsto> RoverRef 1),
            5 \<mapsto> (fillRow 10)(5 \<mapsto> RoverRef 0))"
    and rv: "rovers st marsRoverAlpha = \<lparr>name = ''Alpha'', direction = ''N'',
               currentCoords = Some (5, 5), travelLog = Some [ObjectLiteral (5, 5)]\<rparr>"
    and con: "console st = []"
    by (rule placedWorld_fields)
  obtain st0 where st0: "placedWorld_p0 = Some st0"
    and bounds0: "boundaries (marsMap st0) = \<lparr>left = - 1, right = 10, top_bound = - 1, down = 10\<rparr>"
    and sq0: "squares (marsMap st0) = (fillSquares 10 10)
           (7 \<mapsto> (fillRow 10)(7 \<mapsto> Obstacle), 2 \<mapsto> (fillRow 10)(2 \<mapsto> RoverRef 1),
            5 \<mapsto> (fillRow 10)(5 \<mapsto> RoverRef 0))"
    and rv0: "rovers st0 marsRoverAlpha = \<lparr>name = ''Alpha'', direction = ''N'',
               currentCoords = Some (5, 5), travelLog = Some [(5, 5)]\<rparr>"
    and con0: "console st0 = []"
    by (rule placedWorld_p0_fields)
  have n: "capitalize (name (rovers st marsRoverAlpha)) = Inr ''Alpha''"
    by (simp add: rv)
  have n0: "capitalize (name (rovers st0 marsRoverAlpha)) = Inr ''Alpha''"
    by (simp add: rv0)
  have free: "readSquare (marsMap st) 4 5 = Inr (Some Empty)"
    by (simp add: readSquare_def sq fillSquares_apply fillRow_apply)
  have free0: "readSquare (marsMap st0) 4 5 = Inr (Some Empty)"
    by (simp add: readSquare_def sq0 fillSquares_apply fillRow_apply)
  have rock: "readSquare (marsMap st) 7 7 = Inr (Some Obstacle)"
    by (simp add: readSquare_def sq)
  have rock0: "readSquare (marsMap st0) 7 7 = Inr (Some Obstacle)"
    by (simp add: readSquare_def sq0)
  have beta: "readSquare (marsMap st) 2 2 = Inr (Some (RoverRef 1))"
    by (simp add: readSquare_def sq)
  have beta0: "readSquare (marsMap st0) 2 2 = Inr (Some (RoverRef 1))"
    by (simp add: readSquare_def sq0)
  obtain st' where acc: "repositionRover st marsRoverAlpha (4, 5) = Inr st'"
    by (simp add: repositionRover_def haveObstacle_def bounds free rv writeSquare_def sq
        fillSquares_apply)
  obtain st0' where acc0: "repositionRover_p0 st0 marsRoverAlpha (5, 4) = Inr st0'"
    by (simp add: repositionRover_p0_def haveObstacle_p0_def bounds0 free0 rv0 writeSquare_def sq0
        fillSquares_apply)
  have ne: "name (rovers st marsRoverAlpha) \<noteq> []"
    and ne0: "name (rovers st0 marsRoverAlpha) \<noteq> []"
    by (simp_all add: rv rv0)
  note T = rejected_move_warns_and_changes_nothing [OF ne ne0]
  from T [where d = "(- 1, 5)" and ?d0.0 = "(5, - 1)"]
  have a: "repositionRover st marsRoverAlpha (- 1, 5) =
       Inr (st\<lparr>console := [Warning ''Alpha'' ''destination out of bounds'']\<rparr>)"
    and a0: "repositionRover_p0 st0 marsRoverAlpha (5, - 1) =
       Inr (st0\<lparr>console := [Warning ''Alpha'' ''destination out of bounds'']\<rparr>)"
    by (auto simp: n n0 bounds bounds0 con con0)
  from T [where d = "(5, 10)" and ?d0.0 = "(10, 5)"]
  have b: "repositionRover st marsRoverAlpha (5, 10) =
       Inr (st\<lparr>console := [Warning ''Alpha'' ''destination out of bounds'']\<rparr>)"
    and b0: "repositionRover_p0 st0 marsRoverAlpha (10, 5) =
       Inr (st0\<lparr>console := [Warning ''Alpha'' ''destination out of bounds'']\<rparr>)"
    by (auto simp: n n0 bounds bounds0 con con0)
  from T [where d = "(7, 7)" and c = "Some Obstacle" and ?d0.0 = "(7, 7)" and ?c0.0 = "Some Obstacle"]
  have c: "repositionRover st marsRoverAlpha (7, 7) =
       Inr (st\<lparr>console := [Warning ''Alpha'' ''collision warning'']\<rparr>)"
    and c0: "repositionRover_p0 st0 marsRoverAlpha (7, 7) =
       Inr (st0\<lparr>console := [Warning ''Alpha'' ''collision warning'']\<rparr>)"
    by (auto simp: n n0 bounds bounds0 con con0 rock rock0)
  from T [where d = "(2, 2)" and c = "Some (RoverRef 1)" and ?d0.0 = "(2, 2)" and ?c0.0 = "Some (RoverRef 1)"]
  have e: "repositionRover st marsRoverAlpha (2, 2) =
       Inr (st\<lparr>console := [Warning ''Alpha'' ''collision warning'']\<rparr>)"
    and e0: "repositionRover_p0 st0 marsRoverAlpha (2, 2) =
       Inr (st0\<lparr>console := [Warning ''Alpha'' ''collision warning'']\<rparr>)"
    by (auto simp: n n0 bounds bounds0 con con0 beta beta0)
  from T [where d = "(4, 5)" and st' = st' and ?d0.0 = "(5, 4)" and st0' = st0']
  have d: "currentCoords (rovers st' marsRoverAlpha) = Some (4, 5) \<and> console st' = []"
    and d0: "currentCoords (rovers st0' marsRoverAlpha) = Some (5, 4) \<and> console st0' = []"
    by (auto simp: n n0 bounds bounds0 con con0 free free0 acc acc0)
  show ?thesis
    using st st0 a a0 b b0 c c0 d d0 e e0 acc acc0 by blast
qed

subsection \<open>The travel log\<close>

lemma repositionRover_cases:
  assumes "repositionRover st r d = Inr st'"
  obtains (rejected) w n where "haveObstacle (marsMap st) d = Inr (Some w)"
      and "capitalize (name (rovers st r)) = Inr n"
      and "st' = st\<lparr>console := console st @ [Warning n w]\<rparr>"
    | (accepted) cc lg m1 m2 where "haveObstacle (marsMap st) d = Inr None"
      and "currentCoords (rovers st r) = Some cc" and "travelLog (rovers st r) = Some lg"
      and "writeSquare (marsMap st) (fst cc) (snd cc) Empty = Inr m1"
      and "writeSquare m1 (fst d) (snd d) (RoverRef r) = Inr m2"
      and "st' = st\<lparr>marsMap := m2,
             rovers := (rovers st)(r := (rovers st r)
               \<lparr>currentCoords := Some d, travelLog := Some (lg @ [CurrentCoordsObject])\<rparr>)\<rparr>"
  using assms
  by (auto simp: repositionRover_def issueWarning_def split: sum.splits option.splits)

lemma repositionRover_p0_cases:
  assumes "repositionRover_p0 st r d = Inr st'"
  obtains (rejected) w n where "haveObstacle_p0 (marsMap st) d = Inr (Some w)"
      and "capitalize (name (rovers st r)) = Inr n"
      and "st' = st\<lparr>console := console st @ [Warning n w]\<rparr>"
    | (accepted) cc lg m1 m2 where "haveObstacle_p0 (marsMap st) d = Inr None"
      and "currentCoords (rovers st r) = Some cc" and "travelLog (rovers st r) = Some lg"
      and "writeSquare (marsMap st) (snd cc) (fst cc) Empty = Inr m1"
      and "writeSquare m1 (snd d) (fst d) (RoverRef r) = Inr m2"
      and "st' = st\<lparr>marsMap := m2,
             rovers := (rovers st)(r := (rovers st r)
               \<lparr>currentCoords := Some d, travelLog := Some (lg @ [d])\<rparr>)\<rparr>"
  using assms
  by (auto simp: repositionRover_p0_def issueWarning_def split: sum.splits option.splits)

text \<open>What one call of \<open>repositionRover\<close> does to the logs.\<close>

lemma repositionRover_p0_log:
  assumes "repositionRover_p0 st r d = Inr st'" and "travelLog (rovers st r) = Some lg"
  shows "(haveObstacle_p0 (marsMap st) d = Inr None \<and>
          travelLog (rovers st' r) = Some (lg @ [d]) \<and> currentCoords (rovers st' r) = Some d \<and>
          (\<forall>r'. r' \<noteq> r \<longrightarrow> rovers st' r' = rovers st r')) \<or>
         (haveObstacle_p0 (marsMap st) d \<noteq> Inr None \<and> rovers st' = rovers st \<and>
          marsMap st' = marsMap st)"
  using assms(1)
proof (cases rule: repositionRover_p0_cases)
  case (rejected w n)
  then show ?thesis by simp
next
  case (accepted cc lg' m1 m2)
  then show ?thesis using assms(2) by simp
qed

lemma repositionRover_log:
  assumes "repositionRover st r d = Inr st'" and "travelLog (rovers st r) = Some lg"
  shows "(haveObstacle (marsMap st) d = Inr None \<and>
          travelLog (rovers st' r) = Some (lg @ [CurrentCoordsObject]) \<and>
          currentCoords (rovers st' r) = Some d \<and>
          readEntry (rovers st' r) CurrentCoordsObject = Some d \<and>
          (\<forall>r'. r' \<noteq> r \<longrightarrow> rovers st' r' = rovers st r')) \<or>
         (haveObstacle (marsMap st) d \<noteq> Inr None \<and> rovers st' = rovers st \<and>
          marsMap st' = marsMap st)"
  using assms(1)
proof (cases rule: repositionRover_cases)
  case (rejected w n)
  then show ?thesis by simp
next
  case (accepted cc lg' m1 m2)
  then show ?thesis using assms(2) by (simp add: readEntry_def)
qed

lemma executeOrder_p0_log:
  assumes "executeOrder_p0 st ord = Inr st'" and "travelLog (rovers st r) = Some lg"
  shows "travelLog (rovers st' r) = Some lg \<or>
         (\<exists>d. r = fst ord \<and> travelLog (rovers st' r) = Some (lg @ [d]) \<and>
              currentCoords (rovers st' r) = Some d)"
proof -
  consider (turn) "snd ord = ''l'' \<or> snd ord = ''r''"
    | (fwd) cc where "snd ord = ''f''" "currentCoords (rovers st (fst ord)) = Some cc"
        "repositionRover_p0 st (fst ord) (forwardDestination_p0 cc (direction (rovers st (fst ord)))) = Inr st'"
    | (bwd) cc where "snd ord = ''b''" "currentCoords (rovers st (fst ord)) = Some cc"
        "repositionRover_p0 st (fst ord) (backwardDestination_p0 cc (direction (rovers st (fst ord)))) = Inr st'"
    | (other) "st' = st"
    using assms(1)
    by (auto simp: executeOrder_p0_def moveForward_p0_def moveBackwards_p0_def
        split: if_splits option.splits)
  then show ?thesis
  proof cases
    case turn
    then show ?thesis using assms by (auto simp: executeOrder_p0_def split: if_splits)
  next
    case (fwd cc)
    show ?thesis
    proof (cases "r = fst ord")
      case True
      with repositionRover_p0_log [OF fwd(3)] assms(2) show ?thesis by auto
    next
      case False
      from fwd(3) show ?thesis
        by (cases rule: repositionRover_p0_cases) (use False assms(2) in auto)
    qed
  next
    case (bwd cc)
    show ?thesis
    proof (cases "r = fst ord")
      case True
      with repositionRover_p0_log [OF bwd(3)] assms(2) show ?thesis by auto
    next
      case False
      from bwd(3) show ?thesis
        by (cases rule: repositionRover_p0_cases) (use False assms(2) in auto)
    qed
  next
    case other
    then show ?thesis using assms(2) by simp
  qed
qed

lemma executeOrder_log:
  assumes "executeOrder st ord = Inr st'" and "travelLog (rovers st r) = Some lg"
  shows "travelLog (rovers st' r) = Some lg \<or>
         (\<exists>d. r = fst ord \<and> travelLog (rovers st' r) = Some (lg @ [CurrentCoordsObject]) \<and>
              currentCoords (rovers st' r) = Some d)"
proof -
  consider (turn) "snd ord = ''l'' \<or> snd ord = ''r''"
    | (fwd) cc where "snd ord = ''f''" "currentCoords (rovers st (fst ord)) = Some cc"
        "repositionRover st (fst ord) (forwardDestination cc (direction (rovers st (fst ord)))) = Inr st'"
    | (bwd) cc where "snd ord = ''b''" "currentCoords (rovers st (fst ord)) = Some cc"
        "repositionRover st (fst ord) (backwardDestination cc (direction (rovers st (fst ord)))) = Inr st'"
    | (other) "st' = st"
    using assms(1)
    by (auto simp: executeOrder_def moveForward_def moveBackwards_def
        split: if_splits option.splits)
  then show ?thesis
  proof cases
    case turn
    then show ?thesis using assms by (auto simp: executeOrder_def split: if_splits)
  next
    case (fwd cc)
    show ?thesis
    proof (cases "r = fst ord")
      case True
      with repositionRover_log [OF fwd(3)] assms(2) show ?thesis by auto
    next
      case False
      from fwd(3) show ?thesis
        by (cases rule: repositionRover_cases) (use False assms(2) in auto)
    qed
  next
    case (bwd cc)
    show ?thesis
    proof (cases "r = fst ord")
      case True
      with repositionRover_log [OF bwd(3)] assms(2) show ?thesis by auto
    next
      case False
      from bwd(3) show ?thesis
        by (cases rule: repositionRover_cases) (use False assms(2) in auto)
    qed
  next
    case other
    then show ?thesis using assms(2) by simp
  qed
qed

lemma executeOrders_p0_append_only:
  assumes "executeOrders_p0 st orders = Inr st'" and "travelLog (rovers st r) = Some lg"
  shows "\<exists>ext. travelLog (rovers st' r) = Some (lg @ ext)"
  using assms
proof (induction orders arbitrary: st lg)
  case Nil
  then show ?case by simp
next
  case (Cons ord orders)
  from Cons.prems(1) obtain st1 where one: "executeOrder_p0 st ord = Inr st1"
    and rest: "executeOrders_p0 st1 orders = Inr st'"
    by (auto split: sum.splits)
  from executeOrder_p0_log [OF one Cons.prems(2)]
  obtain e where "travelLog (rovers st1 r) = Some (lg @ e)"
    by (metis append_Nil2)
  from Cons.IH [OF rest this] show ?case
    by (metis append_assoc)
qed

lemma executeOrders_append_only:
  assumes "executeOrders st orders = Inr st'" and "travelLog (rovers st r) = Some lg"
  shows "\<exists>ext. travelLog (rovers st' r) = Some (lg @ ext)"
  using assms
proof (induction orders arbitrary: st lg)
  case Nil
  then show ?case by simp
next
  case (Cons ord orders)
  from Cons.prems(1) obtain st1 where one: "executeOrder st ord = Inr st1"
    and rest: "executeOrders st1 orders = Inr st'"
    by (auto split: sum.splits)
  from executeOrder_log [OF one Cons.prems(2)]
  obtain e where "travelLog (rovers st1 r) = Some (lg @ e)"
    by (metis append_Nil2)
  from Cons.IH [OF rest this] show ?case
    by (metis append_assoc)
qed

lemma turn_orders:
  assumes "snd ord = ''l'' \<or> snd ord = ''r''"
  shows "\<exists>st'. executeOrder st ord = Inr st' \<and> marsMap st' = marsMap st \<and>
           console st' = console st \<and>
           (\<forall>r. travelLog (rovers st' r) = travelLog (rovers st r) \<and>
                currentCoords (rovers st' r) = currentCoords (rovers st r))"
    and "\<exists>st'. executeOrder_p0 st0 ord = Inr st' \<and> marsMap st' = marsMap st0 \<and>
           console st' = console st0 \<and>
           (\<forall>r. travelLog (rovers st' r) = travelLog (rovers st0 r) \<and>
                currentCoords (rovers st' r) = currentCoords (rovers st0 r))"
  using assms by (auto simp: executeOrder_def executeOrder_p0_def)

lemma placing_a_rover_p0:
  assumes "readSquare (marsMap st) (snd pair) (fst pair) = Inr (Some Empty)"
    and "numObst \<le> 0" and "rvs \<noteq> []"
  shows "\<exists>st'. landscapeSetup_body_p0 pair (st, numObst, rvs, deploys) =
             Inr (st', numObst, butlast rvs, deploys - 1) \<and>
           currentCoords (rovers st' (last rvs)) = Some pair \<and>
           travelLog (rovers st' (last rvs)) = Some [pair]"
  using assms
  by (cases rvs) (auto simp: landscapeSetup_body_p0_def readSquare_def writeSquare_def
      split: option.splits)

lemma placing_a_rover:
  assumes "readSquare (marsMap st) (fst pair) (snd pair) = Inr (Some Empty)"
    and "numObst \<le> 0" and "rvs \<noteq> []"
  shows "\<exists>st'. landscapeSetup_body pair (st, numObst, rvs, deploys) =
             Inr (st', numObst, butlast rvs, deploys - 1) \<and>
           currentCoords (rovers st' (last rvs)) = Some pair \<and>
           readLog (rovers st' (last rvs)) = Some [pair]"
  using assms
  by (cases rvs) (auto simp: landscapeSetup_body_def readSquare_def writeSquare_def
      readLog_def readEntry_def split: option.splits)


lemma example_p0:
  "\<exists>s s' cl. placedWorld_p0 = Some s \<and>
     commandRovers_p0 s [\<lparr>rover = marsRoverAlpha, commands = ''ff''\<rparr>] = Inr (s', cl) \<and>
     currentCoords (rovers s' marsRoverAlpha) = Some (5, 3) \<and>
     travelLog (rovers s' marsRoverAlpha) = Some [(5, 5), (5, 4), (5, 3)] \<and>
     console s' = [TravelLog ''Alpha'' [(5, 5), (5, 4), (5, 3)]]"
  unfolding placedWorld_p0_eq by (simp add: run_defs eval_nat_numeral)

lemma example_js:
  "\<exists>s s' cl. placedWorld = Some s \<and>
     commandRovers s [\<lparr>rover = marsRoverAlpha, commands = ''ff''\<rparr>] = Inr (s', cl) \<and>
     currentCoords (rovers s' marsRoverAlpha) = Some (3, 5) \<and>
     travelLog (rovers s' marsRoverAlpha) =
       Some [ObjectLiteral (5, 5), CurrentCoordsObject, CurrentCoordsObject] \<and>
     readLog (rovers s' marsRoverAlpha) = Some [(5, 5), (3, 5), (3, 5)] \<and>
     console s' = [TravelLog ''Alpha'' [(5, 5), (3, 5), (3, 5)]]"
  unfolding placedWorld_eq by (simp add: run_defs eval_nat_numeral)

lemma example_js_one_move:
  "\<exists>s s' cl. placedWorld = Some s \<and>
     commandRovers s [\<lparr>rover = marsRoverAlpha, commands = ''f''\<rparr>] = Inr (s', cl) \<and>
     readLog (rovers s' marsRoverAlpha) = Some [(5, 5), (4, 5)]"
  unfolding placedWorld_eq by (simp add: run_defs eval_nat_numeral)


text \<open>
  C2, as the specification states it, fails on \<^verbatim>\<open>rover.js\<close>. On the \<open>10 \<times> 10\<close> map the
  rover Alpha at \<open>(5, 5)\<close> heading N, with nothing ahead, executes \<^verbatim>\<open>ff\<close>: it ends at
  \<open>(3, 5)\<close>, since \<open>x\<close> indexes the rows there, and its travel log reads, and is printed
  as, \<open>[(5, 5), (3, 5), (3, 5)]\<close>: the entry that the first move appended, which read
  \<open>(4, 5)\<close> then, is the \<^verbatim>\<open>currentCoords\<close> object and has been overwritten by the second.
  The exchange of the axes is the convention of \<^verbatim>\<open>rover.js\<close> throughout; the overwritten
  entry is a defect of its line 256, which pushes the object where \<^verbatim>\<open>part_000\<close> pushes a
  copy.
\<close>

theorem rover_js_log_is_overwritten:
  "placedWorld = Some placedState \<and>
   commandRovers placedState [\<lparr>rover = marsRoverAlpha, commands = ''ff''\<rparr>] =
     Inr (placedState
            \<lparr>marsMap := (marsMap placedState)
               \<lparr>squares := (squares (marsMap placedState))
                  (5 \<mapsto> (fillRow 10)(5 \<mapsto> Empty), 4 \<mapsto> (fillRow 10)(5 \<mapsto> Empty),
                   3 \<mapsto> (fillRow 10)(5 \<mapsto> RoverRef marsRoverAlpha))\<rparr>,
             rovers := (rovers placedState)
               (marsRoverAlpha := \<lparr>name = ''Alpha'', direction = ''N'', currentCoords = Some (3, 5),
                  travelLog = Some [ObjectLiteral (5, 5), CurrentCoordsObject, CurrentCoordsObject]\<rparr>),
             console := [TravelLog ''Alpha'' [(5, 5), (3, 5), (3, 5)]]\<rparr>,
          [\<lparr>rover = marsRoverAlpha, commands = ''ff''\<rparr>]) \<and>
   readLog \<lparr>name = ''Alpha'', direction = ''N'', currentCoords = Some (3, 5),
      travelLog = Some [ObjectLiteral (5, 5), CurrentCoordsObject, CurrentCoordsObject]\<rparr> =
     Some [(5, 5), (3, 5), (3, 5)] \<and>
   [(5, 5), (3, 5), (3, 5)] \<noteq> [(5, 5), (5, 4), (5, 3 :: int)]"
proof -
  have run: "commandRovers placedState [\<lparr>rover = marsRoverAlpha, commands = ''ff''\<rparr>] =
     Inr (placedState
            \<lparr>marsMap := (marsMap placedState)
               \<lparr>squares := (squares (marsMap placedState))
                  (5 \<mapsto> (fillRow 10)(5 \<mapsto> Empty), 4 \<mapsto> (fillRow 10)(5 \<mapsto> Empty),
                   3 \<mapsto> (fillRow 10)(5 \<mapsto> RoverRef marsRoverAlpha))\<rparr>,
             rovers := (rovers placedState)
               (marsRoverAlpha := \<lparr>name = ''Alpha'', direction = ''N'', currentCoords = Some (3, 5),
                  travelLog = Some [ObjectLiteral (5, 5), CurrentCoordsObject, CurrentCoordsObject]\<rparr>),
             console := [TravelLog ''Alpha'' [(5, 5), (3, 5), (3, 5)]]\<rparr>,
          [\<lparr>rover = marsRoverAlpha, commands = ''ff''\<rparr>])"
    unfolding placedState_def by (simp add: run_defs eval_nat_numeral)
  have log: "readLog \<lparr>name = ''Alpha'', direction = ''N'', currentCoords = Some (3, 5),
      travelLog = Some [ObjectLiteral (5, 5), CurrentCoordsObject, CurrentCoordsObject]\<rparr> =
     Some [(5, 5), (3, 5), (3, 5)]"
    by (simp add: readLog_def readEntry_def)
  show ?thesis
    using placedWorld_placedState run log by simp
qed

text \<open>
  C2, amended. In \<^verbatim>\<open>part_000\<close>: placing a rover sets its history to the one sampled
  coordinate; a turn changes no history and no position; a call of \<^verbatim>\<open>repositionRover\<close>
  that returns has either accepted the move, and then appended exactly one entry, the
  committed destination, to the history of the moving rover and left every other rover
  as it was, or rejected it, and then left all rovers and the grid as they were; over any
  run of orders the history of every rover only grows at its end; and on the \<open>10 \<times> 10\<close>
  map the rover at \<open>(5, 5)\<close> heading N, with nothing ahead, executing \<^verbatim>\<open>ff\<close> ends at
  \<open>(5, 3)\<close> with history \<open>[(5, 5), (5, 4), (5, 3)]\<close>.
  In \<^verbatim>\<open>rover.js\<close>: placing a rover sets its history to the one sampled coordinate; a
  turn changes no history and no position; a rejected move changes no rover and not the
  grid; and the rover of the example ends at \<open>(3, 5)\<close>, \<open>x\<close> indexing the rows there.
  Nothing is said here of what an accepted move leaves in the history in \<^verbatim>\<open>rover.js\<close>.
\<close>

theorem history_grows_by_accepted_moves:
  fixes a a' a'' :: "coords world" and j j' :: "entry world"
  shows
    "(readSquare (marsMap a) (snd pair) (fst pair) = Inr (Some Empty) \<and> numObst \<le> 0 \<and> rvs \<noteq> [] \<longrightarrow>
        (\<exists>s. landscapeSetup_body_p0 pair (a, numObst, rvs, deploys) =
               Inr (s, numObst, butlast rvs, deploys - 1) \<and>
             currentCoords (rovers s (last rvs)) = Some pair \<and>
             travelLog (rovers s (last rvs)) = Some [pair])) \<and>
     (snd ord = ''l'' \<or> snd ord = ''r'' \<longrightarrow>
        (\<exists>s. executeOrder_p0 a ord = Inr s \<and> marsMap s = marsMap a \<and> console s = console a \<and>
             (\<forall>r. travelLog (rovers s r) = travelLog (rovers a r) \<and>
                  currentCoords (rovers s r) = currentCoords (rovers a r)))) \<and>
     (repositionRover_p0 a r d = Inr a' \<and> travelLog (rovers a r) = Some lg \<longrightarrow>
        (haveObstacle_p0 (marsMap a) d = Inr None \<and>
         travelLog (rovers a' r) = Some (lg @ [d]) \<and> currentCoords (rovers a' r) = Some d \<and>
         (\<forall>r'. r' \<noteq> r \<longrightarrow> rovers a' r' = rovers a r')) \<or>
        (haveObstacle_p0 (marsMap a) d \<noteq> Inr None \<and> rovers a' = rovers a \<and>
         marsMap a' = marsMap a)) \<and>
     (executeOrders_p0 a orders = Inr a'' \<and> travelLog (rovers a r) = Some lg \<longrightarrow>
        (\<exists>ext. travelLog (rovers a'' r) = Some (lg @ ext))) \<and>
     (\<exists>s s' cl. placedWorld_p0 = Some s \<and>
        commandRovers_p0 s [\<lparr>rover = marsRoverAlpha, commands = ''ff''\<rparr>] = Inr (s', cl) \<and>
        currentCoords (rovers s' marsRoverAlpha) = Some (5, 3) \<and>
        travelLog (rovers s' marsRoverAlpha) = Some [(5, 5), (5, 4), (5, 3)] \<and>
        console s' = [TravelLog ''Alpha'' [(5, 5), (5, 4), (5, 3)]]) \<and>
     (readSquare (marsMap j) (fst pair) (snd pair) = Inr (Some Empty) \<and> numObst \<le> 0 \<and> rvs \<noteq> [] \<longrightarrow>
        (\<exists>s. landscapeSetup_body pair (j, numObst, rvs, deploys) =
               Inr (s, numObst, butlast rvs, deploys - 1) \<and>
             currentCoords (rovers s (last rvs)) = Some pair \<and>
             readLog (rovers s (last rvs)) = Some [pair])) \<and>
     (snd ord = ''l'' \<or> snd ord = ''r'' \<longrightarrow>
        (\<exists>s. executeOrder j ord = Inr s \<and> marsMap s = marsMap j \<and> console s = console j \<and>
             (\<forall>r. travelLog (rovers s r) = travelLog (rovers j r) \<and>
                  currentCoords (rovers s r) = currentCoords (rovers j r)))) \<and>
     (repositionRover j r dj = Inr j' \<and> haveObstacle (marsMap j) dj \<noteq> Inr None \<longrightarrow>
        rovers j' = rovers j \<and> marsMap j' = marsMap j) \<and>
     (\<exists>s s' cl. placedWorld = Some s \<and>
        commandRovers s [\<lparr>rover = marsRoverAlpha, commands = ''ff''\<rparr>] = Inr (s', cl) \<and>
        currentCoords (rovers s' marsRoverAlpha) = Some (3, 5))"
    (is "?p1 \<and> ?p2 \<and> ?p3 \<and> ?p4 \<and> ?p5 \<and> ?j1 \<and> ?j2 \<and> ?j3 \<and> ?j5")
proof -
  have p1: ?p1
    using placing_a_rover_p0 [where st = a] by blast
  have p2: ?p2
    using turn_orders(2) [where ord = ord and ?st0.0 = a] by blast
  have p3: ?p3
    using repositionRover_p0_log [where st = a] by blast
  have p4: ?p4
    using executeOrders_p0_append_only [where st = a] by blast
  have p5: ?p5
    by (rule example_p0)
  have j1: ?j1
    using placing_a_rover [where st = j] by blast
  have j2: ?j2
    using turn_orders(1) [where ord = ord and st = j] by blast
  have j3: ?j3
  proof
    assume run: "repositionRover j r dj = Inr j' \<and> haveObstacle (marsMap j) dj \<noteq> Inr None"
    then have "repositionRover j r dj = Inr j'"
      by simp
    then show "rovers j' = rovers j \<and> marsMap j' = marsMap j"
    proof (cases rule: repositionRover_cases)
      case (rejected w n)
      then show ?thesis by simp
    next
      case (accepted cc lg' m1 m2)
      with run show ?thesis by simp
    qed
  qed
  have j5: ?j5
    using example_js by blast
  show ?thesis
    by (intro conjI) (rule p1 p2 p3 p4 p5 j1 j2 j3 j5)+
qed

lemma evals_p0:
  "\<exists>s a' a''. placedWorld_p0 = Some s \<and>
     readSquare (marsMap s) 1 1 = Inr (Some Empty) \<and>
     travelLog (rovers s marsRoverAlpha) = Some [(5, 5)] \<and>
     haveObstacle_p0 (marsMap s) (5, 4) = Inr None \<and>
     repositionRover_p0 s marsRoverAlpha (5, 4) = Inr a' \<and>
     executeOrders_p0 s [(marsRoverAlpha, ''f''), (marsRoverAlpha, ''f'')] = Inr a''"
  unfolding placedWorld_p0_eq by (simp add: run_defs)

lemma evals_js:
  "\<exists>s j'. placedWorld = Some s \<and>
     readSquare (marsMap s) 1 1 = Inr (Some Empty) \<and>
     travelLog (rovers s marsRoverAlpha) = Some [ObjectLiteral (5, 5)] \<and>
     haveObstacle (marsMap s) (7, 7) = Inr (Some ''collision warning'') \<and>
     repositionRover s marsRoverAlpha (7, 7) = Inr j'"
  unfolding placedWorld_eq by (simp add: run_defs)

text \<open>
  An instance on the example states of both files: Gamma is placed at \<open>(1, 1)\<close>, Alpha
  turns left, Alpha moves to the free square ahead in \<^verbatim>\<open>part_000\<close> and runs \<^verbatim>\<open>ff\<close> there,
  and Alpha's move to the obstacle's square is rejected in \<^verbatim>\<open>rover.js\<close>.
\<close>

theorem history_witness:
  "\<exists>a j. placedWorld_p0 = Some a \<and> placedWorld = Some j \<and>
     (\<exists>s. landscapeSetup_body_p0 (1, 1) (a, 0, [marsRoverGamma], 1) = Inr (s, 0, [], 0) \<and>
          travelLog (rovers s marsRoverGamma) = Some [(1, 1)]) \<and>
     (\<exists>s. executeOrder_p0 a (marsRoverAlpha, ''l'') = Inr s \<and>
          travelLog (rovers s marsRoverAlpha) = Some [(5, 5)]) \<and>
     (\<exists>s. repositionRover_p0 a marsRoverAlpha (5, 4) = Inr s \<and>
          travelLog (rovers s marsRoverAlpha) = Some [(5, 5), (5, 4)]) \<and>
     (\<exists>s ext. executeOrders_p0 a [(marsRoverAlpha, ''f''), (marsRoverAlpha, ''f'')] = Inr s \<and>
          travelLog (rovers s marsRoverAlpha) = Some ((5, 5) # ext)) \<and>
     (\<exists>s. landscapeSetup_body (1, 1) (j, 0, [marsRoverGamma], 1) = Inr (s, 0, [], 0) \<and>
          readLog (rovers s marsRoverGamma) = Some [(1, 1)]) \<and>
     (\<exists>s. executeOrder j (marsRoverAlpha, ''l'') = Inr s \<and>
          travelLog (rovers s marsRoverAlpha) = Some [ObjectLiteral (5, 5)]) \<and>
     (\<exists>s. repositionRover j marsRoverAlpha (7, 7) = Inr s \<and>
          rovers s = rovers j \<and> marsMap s = marsMap j)"
proof -
  obtain a a' a'' where a: "placedWorld_p0 = Some a"
    and free: "readSquare (marsMap a) 1 1 = Inr (Some Empty)"
    and lg: "travelLog (rovers a marsRoverAlpha) = Some [(5, 5)]"
    and ok: "haveObstacle_p0 (marsMap a) (5, 4) = Inr None"
    and move: "repositionRover_p0 a marsRoverAlpha (5, 4) = Inr a'"
    and run: "executeOrders_p0 a [(marsRoverAlpha, ''f''), (marsRoverAlpha, ''f'')] = Inr a''"
    using evals_p0 by blast
  obtain j j' where j: "placedWorld = Some j"
    and freej: "readSquare (marsMap j) 1 1 = Inr (Some Empty)"
    and lgj: "travelLog (rovers j marsRoverAlpha) = Some [ObjectLiteral (5, 5)]"
    and rock: "haveObstacle (marsMap j) (7, 7) = Inr (Some ''collision warning'')"
    and movej: "repositionRover j marsRoverAlpha (7, 7) = Inr j'"
    using evals_js by blast
  note T = history_grows_by_accepted_moves
    [where a = a and pair = "(1, 1)" and numObst = 0 and rvs = "[marsRoverGamma]" and deploys = 1
       and ord = "(marsRoverAlpha, ''l'')" and r = marsRoverAlpha and a' = a' and lg = "[(5, 5)]"
       and orders = "[(marsRoverAlpha, ''f''), (marsRoverAlpha, ''f'')]" and a'' = a''
       and j = j and j' = j' and d = "(5, 4)" and dj = "(7, 7)"]
  note p1 = T [THEN conjunct1]
    and p2 = T [THEN conjunct2, THEN conjunct1]
    and p3 = T [THEN conjunct2, THEN conjunct2, THEN conjunct1]
    and p4 = T [THEN conjunct2, THEN conjunct2, THEN conjunct2, THEN conjunct1]
  note js = T [THEN conjunct2, THEN conjunct2, THEN conjunct2, THEN conjunct2, THEN conjunct2]
  note j1 = js [THEN conjunct1]
    and j2 = js [THEN conjunct2, THEN conjunct1]
    and j3 = js [THEN conjunct2, THEN conjunct2, THEN conjunct1]
  have w1: "\<exists>s. landscapeSetup_body_p0 (1, 1) (a, 0, [marsRoverGamma], 1) = Inr (s, 0, [], 0) \<and>
          travelLog (rovers s marsRoverGamma) = Some [(1, 1)]"
    using p1 free by auto
  have w2: "\<exists>s. executeOrder_p0 a (marsRoverAlpha, ''l'') = Inr s \<and>
          travelLog (rovers s marsRoverAlpha) = Some [(5, 5)]"
    using p2 lg by auto
  have w3: "\<exists>s. repositionRover_p0 a marsRoverAlpha (5, 4) = Inr s \<and>
          travelLog (rovers s marsRoverAlpha) = Some [(5, 5), (5, 4)]"
    using p3 move lg ok by auto
  have w4: "\<exists>s ext. executeOrders_p0 a [(marsRoverAlpha, ''f''), (marsRoverAlpha, ''f'')] = Inr s \<and>
          travelLog (rovers s marsRoverAlpha) = Some ((5, 5) # ext)"
    using p4 run lg by (intro exI [of _ a'']) simp
  have w5: "\<exists>s. landscapeSetup_body (1, 1) (j, 0, [marsRoverGamma], 1) = Inr (s, 0, [], 0) \<and>
          readLog (rovers s marsRoverGamma) = Some [(1, 1)]"
    using j1 freej by auto
  have w6: "\<exists>s. executeOrder j (marsRoverAlpha, ''l'') = Inr s \<and>
          travelLog (rovers s marsRoverAlpha) = Some [ObjectLiteral (5, 5)]"
    using j2 lgj by auto
  have w7: "\<exists>s. repositionRover j marsRoverAlpha (7, 7) = Inr s \<and>
          rovers s = rovers j \<and> marsMap s = marsMap j"
    using j3 movej rock by (intro exI [of _ j']) simp
  show ?thesis
    by (rule exI [of _ a], rule exI [of _ j]) (intro conjI a j w1 w2 w3 w4 w5 w6 w7)
qed

subsection \<open>The order chain\<close>

lemma chainRows_eq:
  "chainRows i ps = map (\<lambda>p. (rover p, [commands p ! i])) (filter (\<lambda>p. i < length (commands p)) ps)"
  by (induction ps) (simp_all add: charAt_def)

lemma chainColumns_eq: "chainColumns n ps = roundRobin n ps"
  by (induction n) (simp_all add: roundRobin_def chainRows_eq)

lemma count_longer:
  "(\<Sum>p\<leftarrow>ps. min (Suc n) (length (commands p))) =
   (\<Sum>p\<leftarrow>ps. min n (length (commands p))) + length (filter (\<lambda>p. n < length (commands p)) ps)"
  by (induction ps) auto

lemma length_chainColumns:
  "length (chainColumns n ps) = (\<Sum>p\<leftarrow>ps. min n (length (commands p)))"
  by (induction n) (simp_all add: chainRows_eq count_longer)

lemma length_chainColumns_all:
  assumes "\<forall>p\<in>set ps. length (commands p) \<le> n"
  shows "length (chainColumns n ps) = (\<Sum>p\<leftarrow>ps. length (commands p))"
proof -
  have "(\<Sum>p\<leftarrow>ps. min n (length (commands p))) = (\<Sum>p\<leftarrow>ps. length (commands p))"
    using assms by (induction ps) auto
  then show ?thesis by (simp add: length_chainColumns)
qed

lemma filter_chainRows:
  assumes "distinct (map rover ps)" and "p \<in> set ps"
  shows "filter (\<lambda>ord. fst ord = rover p) (chainRows i ps) =
         (if i < length (commands p) then [(rover p, [commands p ! i])] else [])"
  using assms
proof (induction ps)
  case Nil
  then show ?case by simp
next
  case (Cons q qs)
  show ?case
  proof (cases "q = p")
    case True
    have "\<forall>x\<in>set qs. rover x \<noteq> rover p"
      using Cons.prems(1) True by (auto simp: image_iff)
    then have "filter (\<lambda>ord. fst ord = rover p) (chainRows i qs) = []"
      by (simp add: chainRows_eq filter_empty_conv)
    then show ?thesis using True by (simp add: charAt_def)
  next
    case False
    then have "p \<in> set qs" and "rover q \<noteq> rover p"
      using Cons.prems by auto
    then show ?thesis using Cons by (simp add: charAt_def)
  qed
qed

lemma filter_chainColumns:
  assumes "distinct (map rover ps)" and "p \<in> set ps"
  shows "filter (\<lambda>ord. fst ord = rover p) (chainColumns n ps) =
         map (\<lambda>i. (rover p, [commands p ! i])) [0..<min n (length (commands p))]"
proof (induction n)
  case 0
  then show ?case by simp
next
  case (Suc n)
  show ?case
  proof (cases "n < length (commands p)")
    case True
    then have "min (Suc n) (length (commands p)) = Suc (min n (length (commands p)))"
      by simp
    then show ?thesis using Suc True by (simp add: filter_chainRows [OF assms])
  next
    case False
    then have "min (Suc n) (length (commands p)) = min n (length (commands p))"
      by simp
    then show ?thesis using Suc False by (simp add: filter_chainRows [OF assms])
  qed
qed

lemma own_commands_in_order:
  assumes "distinct (map rover ps)" and "p \<in> set ps" and "length (commands p) \<le> n"
  shows "map snd (filter (\<lambda>ord. fst ord = rover p) (chainColumns n ps)) =
         map (\<lambda>c. [c]) (commands p)"
proof -
  have "min n (length (commands p)) = length (commands p)"
    using assms(3) by simp
  then have "map snd (filter (\<lambda>ord. fst ord = rover p) (chainColumns n ps)) =
      map (\<lambda>i. [commands p ! i]) [0..<length (commands p)]"
    by (simp add: filter_chainColumns [OF assms(1,2)] comp_def)
  also have "\<dots> = map (\<lambda>c. [c]) (map (\<lambda>i. commands p ! i) [0..<length (commands p)])"
    by (simp add: comp_def)
  also have "\<dots> = map (\<lambda>c. [c]) (commands p)"
    by (simp add: map_nth)
  finally show ?thesis .
qed

lemma sortByLength_props:
  "mset (sortByLength cl) = mset cl"
  "set (sortByLength cl) = set cl"
  "length (sortByLength cl) = length cl"
  "sorted (map (\<lambda>p. - int (length (commands p))) (sortByLength cl))"
  "filter (\<lambda>p. length (commands p) = k) (sortByLength cl) = filter (\<lambda>p. length (commands p) = k) cl"
proof -
  show "mset (sortByLength cl) = mset cl" "set (sortByLength cl) = set cl"
    "length (sortByLength cl) = length cl"
    "sorted (map (\<lambda>p. - int (length (commands p))) (sortByLength cl))"
    by (simp_all add: sortByLength_def)
  have "filter (\<lambda>p. - int (length (commands p)) = - int k) (sortByLength cl) =
        filter (\<lambda>p. - int (length (commands p)) = - int k) cl"
    unfolding sortByLength_def by (rule sort_key_stable)
  then show "filter (\<lambda>p. length (commands p) = k) (sortByLength cl) =
        filter (\<lambda>p. length (commands p) = k) cl"
    by simp
qed

lemma first_is_longest:
  assumes "sortByLength cl = first # rest"
  shows "\<forall>p\<in>set cl. length (commands p) \<le> length (commands first)"
    and "first \<in> set cl"
proof -
  have s: "sorted (map (\<lambda>p. - int (length (commands p))) (first # rest))"
    using sortByLength_props(4) [of cl] assms by simp
  have "set cl = set (first # rest)"
    using sortByLength_props(2) [of cl] assms by simp
  then show "\<forall>p\<in>set cl. length (commands p) \<le> length (commands first)" "first \<in> set cl"
    using s by auto
qed

lemma maxLen_first:
  assumes "sortByLength cl = first # rest"
  shows "Max ((\<lambda>p. length (commands p)) ` set cl) = length (commands first)"
  using first_is_longest [OF assms] by (intro Max_eqI) auto

lemma chainList_nonempty:
  assumes "cl \<noteq> []"
  shows "chainList cl =
     Inr (roundRobin (Max ((\<lambda>p. length (commands p)) ` set cl)) (sortByLength cl), sortByLength cl)"
proof -
  have "sortByLength cl \<noteq> []"
    using assms sortByLength_props(3) [of cl] by (metis length_0_conv)
  then obtain first rest where fr: "sortByLength cl = first # rest"
    by (cases "sortByLength cl") auto
  show ?thesis
    using fr maxLen_first [OF fr] by (simp add: chainList_def chainColumns_eq Let_def)
qed

lemma chainList_empty: "chainList [] = Inl TypeError"
  by (simp add: chainList_def sortByLength_def)

lemma roundRobin_length:
  assumes "cl \<noteq> []"
  shows "length (roundRobin (Max ((\<lambda>p. length (commands p)) ` set cl)) (sortByLength cl)) =
         (\<Sum>p\<leftarrow>cl. length (commands p))"
proof -
  let ?n = "Max ((\<lambda>p. length (commands p)) ` set cl)"
  have "\<forall>p\<in>set (sortByLength cl). length (commands p) \<le> ?n"
    by (simp add: sortByLength_props(2))
  then have "length (chainColumns ?n (sortByLength cl)) = (\<Sum>p\<leftarrow>sortByLength cl. length (commands p))"
    by (rule length_chainColumns_all)
  also have "\<dots> = sum_mset (image_mset (\<lambda>p. length (commands p)) (mset (sortByLength cl)))"
    by (metis mset_map sum_mset_sum_list)
  also have "\<dots> = (\<Sum>p\<leftarrow>cl. length (commands p))"
    by (metis sortByLength_props(1) mset_map sum_mset_sum_list)
  finally show ?thesis by (simp add: chainColumns_eq)
qed

lemma roundRobin_own_order:
  assumes "distinct (map rover cl)" and "p \<in> set cl"
  shows "map snd (filter (\<lambda>ord. fst ord = rover p)
           (roundRobin (Max ((\<lambda>p. length (commands p)) ` set cl)) (sortByLength cl))) =
         map (\<lambda>c. [c]) (commands p)"
proof -
  have "mset (map rover (sortByLength cl)) = mset (map rover cl)"
    by (simp add: sortByLength_props(1))
  then have d: "distinct (map rover (sortByLength cl))"
    using assms(1) by (metis mset_eq_imp_distinct_iff)
  have p: "p \<in> set (sortByLength cl)"
    using assms(2) by (simp add: sortByLength_props(2))
  have "length (commands p) \<le> Max ((\<lambda>p. length (commands p)) ` set cl)"
    using assms(2) by simp
  from own_commands_in_order [OF d p this] show ?thesis
    by (simp add: chainColumns_eq)
qed

lemma three_and_five:
  assumes "length (commands a) = 3" and "length (commands b) = 5"
  shows "sortByLength [a, b] = [b, a]" and "sortByLength [b, a] = [b, a]"
    and "chainColumns 5 [b, a] =
      [(rover b, [commands b ! 0]), (rover a, [commands a ! 0]),
       (rover b, [commands b ! 1]), (rover a, [commands a ! 1]),
       (rover b, [commands b ! 2]), (rover a, [commands a ! 2]),
       (rover b, [commands b ! 3]), (rover b, [commands b ! 4])]"
  using assms by (simp_all add: sortByLength_def eval_nat_numeral charAt_def)


lemma descending_sortByLength:
  "sorted_wrt (\<lambda>p q. length (commands q) \<le> length (commands p)) (sortByLength cl)"
  using sortByLength_props(4) [of cl] by (simp add: sorted_map)

text \<open>
  C4, as the specification states it, fails on the empty batch, which has only valid
  characters: \<^verbatim>\<open>chainList\<close> reads \<^verbatim>\<open>commandList[0].commands\<close> of an empty array and raises
  a TypeError, so no order list is built, and \<^verbatim>\<open>commandRovers\<close> raises it in both files.
\<close>

theorem empty_batch_raises:
  "hasInvalidCommands [] = None \<and>
   chainList [] = Inl TypeError \<and>
   commandRovers placedState [] = Inl TypeError \<and>
   commandRovers_p0 placedState_p0 [] = Inl TypeError"
  by (simp add: hasInvalidCommands_def chainList_def sortByLength_def commandRovers_def
      commandRovers_p0_def)

text \<open>
  C4, amended. For every batch with at least one request (whatever its characters),
  \<^verbatim>\<open>chainList\<close> returns, and leaves the array sorted: a permutation of the batch, in descending order
  of command-string length, in which the requests of any one length keep their
  submission order. The chain is the round-robin interleaving of that sorted list, for
  \<open>i\<close> from 0 to \<open>maxLen - 1\<close> where \<open>maxLen\<close> is the greatest length in the batch.
  Its length is the sum of the lengths of the command strings; when the rovers of the
  batch are distinct, the commands of each rover appear in the chain in their own order;
  and for two requests with strings of lengths 3 and 5, submitted in either order, the
  chain has 8 orders, the first six alternating between the two rovers (the longer
  first) and the last two being the fourth and fifth command of the longer string.
\<close>

theorem chainList_interleaves_round_robin:
  assumes "commandList \<noteq> []"
  shows "\<exists>chain reqs.
     chainList commandList = Inr (chain, reqs) \<and>
     mset reqs = mset commandList \<and>
     sorted_wrt (\<lambda>p q. length (commands q) \<le> length (commands p)) reqs \<and>
     (\<forall>k. filter (\<lambda>p. length (commands p) = k) reqs =
          filter (\<lambda>p. length (commands p) = k) commandList) \<and>
     chain = roundRobin (Max ((\<lambda>p. length (commands p)) ` set commandList)) reqs \<and>
     length chain = (\<Sum>p\<leftarrow>commandList. length (commands p)) \<and>
     (distinct (map rover commandList) \<longrightarrow>
        (\<forall>p\<in>set commandList.
           map snd (filter (\<lambda>ord. fst ord = rover p) chain) = map (\<lambda>c. [c]) (commands p))) \<and>
     (\<forall>a b. length (commands a) = 3 \<and> length (commands b) = 5 \<and>
            (commandList = [a, b] \<or> commandList = [b, a]) \<longrightarrow>
        length chain = 8 \<and>
        take 6 chain =
          [(rover b, [commands b ! 0]), (rover a, [commands a ! 0]),
           (rover b, [commands b ! 1]), (rover a, [commands a ! 1]),
           (rover b, [commands b ! 2]), (rover a, [commands a ! 2])] \<and>
        drop 6 chain = [(rover b, [commands b ! 3]), (rover b, [commands b ! 4])])"
proof -
  let ?n = "Max ((\<lambda>p. length (commands p)) ` set commandList)"
  let ?reqs = "sortByLength commandList"
  let ?chain = "roundRobin ?n ?reqs"
  have run: "chainList commandList = Inr (?chain, ?reqs)"
    by (rule chainList_nonempty [OF assms])
  have own: "distinct (map rover commandList) \<longrightarrow>
        (\<forall>p\<in>set commandList.
           map snd (filter (\<lambda>ord. fst ord = rover p) ?chain) = map (\<lambda>c. [c]) (commands p))"
    using roundRobin_own_order [of commandList] by blast
  have ex: "length ?chain = 8 \<and>
        take 6 ?chain =
          [(rover b, [commands b ! 0]), (rover a, [commands a ! 0]),
           (rover b, [commands b ! 1]), (rover a, [commands a ! 1]),
           (rover b, [commands b ! 2]), (rover a, [commands a ! 2])] \<and>
        drop 6 ?chain = [(rover b, [commands b ! 3]), (rover b, [commands b ! 4])]"
    if ab: "length (commands a) = 3" "length (commands b) = 5"
      and cl: "commandList = [a, b] \<or> commandList = [b, a]" for a b
  proof -
    have "?reqs = [b, a]"
      using cl three_and_five(1,2) [OF ab] by auto
    moreover have "?n = 5"
      using cl ab by auto
    ultimately have "?chain = chainColumns 5 [b, a]"
      by (simp add: chainColumns_eq)
    then show ?thesis
      by (simp add: three_and_five(3) [OF ab])
  qed
  show ?thesis
    using run sortByLength_props(1,5) [where cl = commandList] descending_sortByLength [of commandList]
      roundRobin_length [OF assms] own ex
    by blast
qed

text \<open>An instance: Alpha with \<^verbatim>\<open>lfr\<close> submitted before Beta with \<^verbatim>\<open>ffrfb\<close>.\<close>

theorem chainList_witness:
  "\<exists>chain. chainList [\<lparr>rover = marsRoverAlpha, commands = ''lfr''\<rparr>,
                        \<lparr>rover = marsRoverBeta, commands = ''ffrfb''\<rparr>] =
      Inr (chain, [\<lparr>rover = marsRoverBeta, commands = ''ffrfb''\<rparr>,
                   \<lparr>rover = marsRoverAlpha, commands = ''lfr''\<rparr>]) \<and>
     length chain = 8 \<and>
     take 6 chain = [(marsRoverBeta, ''f''), (marsRoverAlpha, ''l''), (marsRoverBeta, ''f''),
                     (marsRoverAlpha, ''f''), (marsRoverBeta, ''r''), (marsRoverAlpha, ''r'')] \<and>
     drop 6 chain = [(marsRoverBeta, ''f''), (marsRoverBeta, ''b'')] \<and>
     map snd (filter (\<lambda>ord. fst ord = marsRoverAlpha) chain) = [''l'', ''f'', ''r''] \<and>
     map snd (filter (\<lambda>ord. fst ord = marsRoverBeta) chain) = [''f'', ''f'', ''r'', ''f'', ''b'']"
proof -
  let ?a = "\<lparr>rover = marsRoverAlpha, commands = ''lfr''\<rparr>"
  let ?b = "\<lparr>rover = marsRoverBeta, commands = ''ffrfb''\<rparr>"
  have ne: "[?a, ?b] \<noteq> []"
    by simp
  have d: "distinct (map rover [?a, ?b])"
    by (simp add: marsRoverAlpha_def marsRoverBeta_def)
  have s: "sortByLength [?a, ?b] = [?b, ?a]"
    by (simp add: sortByLength_def)
  from chainList_interleaves_round_robin [OF ne]
  obtain chain reqs where c: "chainList [?a, ?b] = Inr (chain, reqs)"
    and own: "distinct (map rover [?a, ?b]) \<longrightarrow>
        (\<forall>p\<in>set [?a, ?b].
           map snd (filter (\<lambda>ord. fst ord = rover p) chain) = map (\<lambda>c. [c]) (commands p))"
    and ex: "\<forall>a b. length (commands a) = 3 \<and> length (commands b) = 5 \<and>
            ([?a, ?b] = [a, b] \<or> [?a, ?b] = [b, a]) \<longrightarrow>
        length chain = 8 \<and>
        take 6 chain =
          [(rover b, [commands b ! 0]), (rover a, [commands a ! 0]),
           (rover b, [commands b ! 1]), (rover a, [commands a ! 1]),
           (rover b, [commands b ! 2]), (rover a, [commands a ! 2])] \<and>
        drop 6 chain = [(rover b, [commands b ! 3]), (rover b, [commands b ! 4])]"
    by blast
  have reqs: "reqs = [?b, ?a]"
    using c s by (simp add: chainList_def Let_def)
  have "length (commands ?a) = 3 \<and> length (commands ?b) = 5 \<and>
        ([?a, ?b] = [?a, ?b] \<or> [?a, ?b] = [?b, ?a])"
    by simp
  with ex have e: "length chain = 8 \<and>
        take 6 chain =
          [(rover ?b, [commands ?b ! 0]), (rover ?a, [commands ?a ! 0]),
           (rover ?b, [commands ?b ! 1]), (rover ?a, [commands ?a ! 1]),
           (rover ?b, [commands ?b ! 2]), (rover ?a, [commands ?a ! 2])] \<and>
        drop 6 chain = [(rover ?b, [commands ?b ! 3]), (rover ?b, [commands ?b ! 4])]"
    by blast
  from own d have o: "\<forall>p\<in>set [?a, ?b].
           map snd (filter (\<lambda>ord. fst ord = rover p) chain) = map (\<lambda>c. [c]) (commands p)"
    by blast
  show ?thesis
    using c reqs e o by (intro exI [of _ chain]) simp
qed

subsection \<open>Processing a batch\<close>

lemma hasInvalidCommands_append:
  "hasInvalidCommands (xs @ ys) =
     (case hasInvalidCommands ys of None \<Rightarrow> hasInvalidCommands xs | Some r \<Rightarrow> Some r)"
proof (induction ys rule: rev_induct)
  case Nil
  then show ?case by (simp add: hasInvalidCommands_def)
next
  case (snoc y ys)
  have "hasInvalidCommands (xs @ ys @ [y]) =
      (if hasWrongCommand (commands y) then Some (rover y) else hasInvalidCommands (xs @ ys))"
    by (simp add: hasInvalidCommands_def flip: append_assoc)
  moreover have "hasInvalidCommands (ys @ [y]) =
      (if hasWrongCommand (commands y) then Some (rover y) else hasInvalidCommands ys)"
    by (simp add: hasInvalidCommands_def)
  ultimately show ?case using snoc by simp
qed

lemma hasInvalidCommands_None:
  "hasInvalidCommands cl = None \<longleftrightarrow> (\<forall>p\<in>set cl. \<not> hasWrongCommand (commands p))"
proof (induction cl rule: rev_induct)
  case Nil
  then show ?case by (simp add: hasInvalidCommands_def)
next
  case (snoc y ys)
  have "hasInvalidCommands (ys @ [y]) =
      (if hasWrongCommand (commands y) then Some (rover y) else hasInvalidCommands ys)"
    by (simp add: hasInvalidCommands_def)
  then show ?case using snoc by auto
qed

lemma hasInvalidCommands_last:
  assumes "hasWrongCommand (commands pair)"
    and "\<forall>q\<in>set after. \<not> hasWrongCommand (commands q)"
  shows "hasInvalidCommands (before @ pair # after) = Some (rover pair)"
proof -
  have a: "hasInvalidCommands after = None"
    using assms(2) by (simp add: hasInvalidCommands_None)
  have "hasInvalidCommands ([pair] @ after) = Some (rover pair)"
    unfolding hasInvalidCommands_append [of "[pair]" after] a
    using assms(1) by (simp add: hasInvalidCommands_def)
  then show ?thesis
    using hasInvalidCommands_append [of before "pair # after"] by simp
qed

lemma last_offender:
  assumes "\<exists>p\<in>set cl. hasWrongCommand (commands p)"
  obtains before pair after where "cl = before @ pair # after"
    and "hasWrongCommand (commands pair)"
    and "\<forall>q\<in>set after. \<not> hasWrongCommand (commands q)"
  using split_list_last_prop [OF assms] by blast


lemma commandRovers_rejects:
  assumes "hasInvalidCommands cl = Some r" and "capitalize (name (rovers st r)) = Inr n"
  shows "commandRovers st cl =
     Inr (st\<lparr>console := console st @
            [Warning n ''has wrong commands. Only l,r,f,b are valid commands'']\<rparr>, cl)"
  using assms by (simp add: commandRovers_def issueWarning_def)

lemma commandRovers_p0_rejects:
  assumes "hasInvalidCommands cl = Some r" and "capitalize (name (rovers st r)) = Inr n"
  shows "commandRovers_p0 st cl =
     Inr (st\<lparr>console := console st @
            [Warning n ''has wrong commands. Only l,r,f,b are valid commands'']\<rparr>, cl)"
  using assms by (simp add: commandRovers_p0_def issueWarning_def)

text \<open>
  C5, as the specification states it, fails when two requests are invalid: the closure
  kept by \<^verbatim>\<open>hasInvalidCommands\<close> is the one of the last invalid request, so the one
  warning names Beta, and Alpha, whose string \<^verbatim>\<open>lrx\<close> is invalid too, is not named. It
  fails as well when the rover of the last invalid request has the empty string for its
  name: \<^verbatim>\<open>capitalize\<close> raises a TypeError and no warning is issued.
\<close>

theorem two_offenders_one_warning:
  "placedWorld = Some placedState \<and>
   hasWrongCommand ''lrx'' \<and> hasWrongCommand ''y'' \<and>
   commandRovers placedState [\<lparr>rover = marsRoverAlpha, commands = ''lrx''\<rparr>,
                       \<lparr>rover = marsRoverBeta, commands = ''y''\<rparr>] =
       Inr (placedState\<lparr>console := [Warning ''Beta''
                  ''has wrong commands. Only l,r,f,b are valid commands'']\<rparr>,
            [\<lparr>rover = marsRoverAlpha, commands = ''lrx''\<rparr>,
             \<lparr>rover = marsRoverBeta, commands = ''y''\<rparr>]) \<and>
   Warning ''Alpha'' ''has wrong commands. Only l,r,f,b are valid commands'' \<notin>
       set [Warning ''Beta'' ''has wrong commands. Only l,r,f,b are valid commands''] \<and>
   name (rovers namelessState marsRoverAlpha) = [] \<and>
   commandRovers namelessState [\<lparr>rover = marsRoverAlpha, commands = ''lrx''\<rparr>] = Inl TypeError \<and>
   name (rovers namelessState_p0 marsRoverAlpha) = [] \<and>
   commandRovers_p0 namelessState_p0 [\<lparr>rover = marsRoverAlpha, commands = ''lrx''\<rparr>] =
     Inl TypeError"
proof -
  have rv: "rovers placedState marsRoverBeta = \<lparr>name = ''Beta'', direction = ''N'',
           currentCoords = Some (2, 2), travelLog = Some [ObjectLiteral (2, 2)]\<rparr>"
    and con: "console placedState = []"
    by (simp_all add: placedState_def marsRoverAlpha_def marsRoverBeta_def)
  have "hasInvalidCommands [\<lparr>rover = marsRoverAlpha, commands = ''lrx''\<rparr>,
                       \<lparr>rover = marsRoverBeta, commands = ''y''\<rparr>] = Some marsRoverBeta"
    by (simp add: hasInvalidCommands_def hasWrongCommand_def)
  from commandRovers_rejects [OF this, of placedState "''Beta''"]
  have two: "commandRovers placedState [\<lparr>rover = marsRoverAlpha, commands = ''lrx''\<rparr>,
                       \<lparr>rover = marsRoverBeta, commands = ''y''\<rparr>] =
       Inr (placedState\<lparr>console := [Warning ''Beta''
                  ''has wrong commands. Only l,r,f,b are valid commands'']\<rparr>,
            [\<lparr>rover = marsRoverAlpha, commands = ''lrx''\<rparr>,
             \<lparr>rover = marsRoverBeta, commands = ''y''\<rparr>])"
    by (simp add: rv con)
  have bad: "hasWrongCommand ''lrx''" "hasWrongCommand ''y''"
    by (simp_all add: hasWrongCommand_def)
  have other: "Warning ''Alpha'' ''has wrong commands. Only l,r,f,b are valid commands'' \<notin>
       set [Warning ''Beta'' ''has wrong commands. Only l,r,f,b are valid commands'']"
    by simp
  have nameless: "name (rovers namelessState marsRoverAlpha) = []"
    "name (rovers namelessState_p0 marsRoverAlpha) = []"
    by (simp_all add: namelessState_def namelessState_p0_def)
  have one: "hasInvalidCommands [\<lparr>rover = marsRoverAlpha, commands = ''lrx''\<rparr>] =
      Some marsRoverAlpha"
    by (simp add: hasInvalidCommands_def hasWrongCommand_def)
  have raises: "commandRovers namelessState [\<lparr>rover = marsRoverAlpha, commands = ''lrx''\<rparr>] =
      Inl TypeError"
    "commandRovers_p0 namelessState_p0 [\<lparr>rover = marsRoverAlpha, commands = ''lrx''\<rparr>] =
      Inl TypeError"
    by (simp_all add: commandRovers_def commandRovers_p0_def one issueWarning_def nameless
        capitalize_empty)
  show ?thesis
    by (intro conjI placedWorld_placedState bad two other nameless raises)
qed

text \<open>
  C5, amended. For every batch of command requests, in both files, if any request's
  command string contains a character outside l, r, f, b, and the rover of the last
  invalid request of the list has a name that is not empty, then the entire batch is
  rejected: no order executes, no rover or grid state is mutated (the state returned is
  the state given but for the console, and the list is returned as it was), and exactly
  one warning is issued, which names the rover of the last invalid request of the list,
  \<open>n\<close> being its name as \<^verbatim>\<open>capitalize\<close> returns it. When exactly one request is invalid,
  that is exactly one warning naming that request's rover.
\<close>

theorem invalid_batch_warns_for_last_offender:
  fixes st :: "entry world" and st0 :: "coords world"
  assumes "\<exists>p\<in>set commandList. hasWrongCommand (commands p)"
  shows "\<exists>before pair after.
     commandList = before @ pair # after \<and>
     hasWrongCommand (commands pair) \<and>
     (\<forall>q\<in>set after. \<not> hasWrongCommand (commands q)) \<and>
     (name (rovers st (rover pair)) \<noteq> [] \<longrightarrow>
        (\<exists>n. capitalize (name (rovers st (rover pair))) = Inr n \<and>
           commandRovers st commandList =
             Inr (st\<lparr>console := console st @
                    [Warning n ''has wrong commands. Only l,r,f,b are valid commands'']\<rparr>,
                  commandList))) \<and>
     (name (rovers st0 (rover pair)) \<noteq> [] \<longrightarrow>
        (\<exists>n. capitalize (name (rovers st0 (rover pair))) = Inr n \<and>
           commandRovers_p0 st0 commandList =
             Inr (st0\<lparr>console := console st0 @
                    [Warning n ''has wrong commands. Only l,r,f,b are valid commands'']\<rparr>,
                  commandList)))"
proof -
  from assms obtain before pair after where cl: "commandList = before @ pair # after"
    and bad: "hasWrongCommand (commands pair)"
    and rest: "\<forall>q\<in>set after. \<not> hasWrongCommand (commands q)"
    by (rule last_offender)
  have inv: "hasInvalidCommands commandList = Some (rover pair)"
    unfolding cl by (rule hasInvalidCommands_last [OF bad rest])
  have js: "\<exists>n. capitalize (name (rovers st (rover pair))) = Inr n \<and>
           commandRovers st commandList =
             Inr (st\<lparr>console := console st @
                    [Warning n ''has wrong commands. Only l,r,f,b are valid commands'']\<rparr>,
                  commandList)"
    if "name (rovers st (rover pair)) \<noteq> []"
  proof -
    from capitalize_nonempty [OF that] obtain n
      where n: "capitalize (name (rovers st (rover pair))) = Inr n"
      by blast
    from n commandRovers_rejects [OF inv n] show ?thesis
      by blast
  qed
  have p0: "\<exists>n. capitalize (name (rovers st0 (rover pair))) = Inr n \<and>
           commandRovers_p0 st0 commandList =
             Inr (st0\<lparr>console := console st0 @
                    [Warning n ''has wrong commands. Only l,r,f,b are valid commands'']\<rparr>,
                  commandList)"
    if "name (rovers st0 (rover pair)) \<noteq> []"
  proof -
    from capitalize_nonempty [OF that] obtain n
      where n: "capitalize (name (rovers st0 (rover pair))) = Inr n"
      by blast
    from n commandRovers_p0_rejects [OF inv n] show ?thesis
      by blast
  qed
  show ?thesis
    using cl bad rest js p0 by blast
qed

text \<open>An instance: Alpha's string \<^verbatim>\<open>lrx\<close> is the only invalid one of the batch.\<close>

theorem invalid_batch_witness:
  "\<exists>st st0. placedWorld = Some st \<and> placedWorld_p0 = Some st0 \<and>
     commandRovers st [\<lparr>rover = marsRoverAlpha, commands = ''lrx''\<rparr>,
                       \<lparr>rover = marsRoverBeta, commands = ''ff''\<rparr>] =
       Inr (st\<lparr>console := [Warning ''Alpha''
                  ''has wrong commands. Only l,r,f,b are valid commands'']\<rparr>,
            [\<lparr>rover = marsRoverAlpha, commands = ''lrx''\<rparr>,
             \<lparr>rover = marsRoverBeta, commands = ''ff''\<rparr>]) \<and>
     commandRovers_p0 st0 [\<lparr>rover = marsRoverAlpha, commands = ''lrx''\<rparr>,
                       \<lparr>rover = marsRoverBeta, commands = ''ff''\<rparr>] =
       Inr (st0\<lparr>console := [Warning ''Alpha''
                  ''has wrong commands. Only l,r,f,b are valid commands'']\<rparr>,
            [\<lparr>rover = marsRoverAlpha, commands = ''lrx''\<rparr>,
             \<lparr>rover = marsRoverBeta, commands = ''ff''\<rparr>])"
proof -
  let ?a = "\<lparr>rover = marsRoverAlpha, commands = ''lrx''\<rparr>"
  let ?b = "\<lparr>rover = marsRoverBeta, commands = ''ff''\<rparr>"
  obtain st where st: "placedWorld = Some st"
    and rv: "rovers st marsRoverAlpha = \<lparr>name = ''Alpha'', direction = ''N'',
           currentCoords = Some (5, 5), travelLog = Some [ObjectLiteral (5, 5)]\<rparr>"
    and con: "console st = []"
    by (rule placedWorld_fields)
  obtain st0 where st0: "placedWorld_p0 = Some st0"
    and rv0: "rovers st0 marsRoverAlpha = \<lparr>name = ''Alpha'', direction = ''N'',
           currentCoords = Some (5, 5), travelLog = Some [(5, 5)]\<rparr>"
    and con0: "console st0 = []"
    by (rule placedWorld_p0_fields)
  have bad: "\<exists>p\<in>set [?a, ?b]. hasWrongCommand (commands p)"
    by (simp add: hasWrongCommand_def)
  from invalid_batch_warns_for_last_offender [OF bad, of st st0]
  obtain before pair after where cl: "[?a, ?b] = before @ pair # after"
    and p: "hasWrongCommand (commands pair)"
    and q: "\<forall>q\<in>set after. \<not> hasWrongCommand (commands q)"
    and r: "name (rovers st (rover pair)) \<noteq> [] \<longrightarrow>
        (\<exists>n. capitalize (name (rovers st (rover pair))) = Inr n \<and>
           commandRovers st [?a, ?b] =
             Inr (st\<lparr>console := console st @
                    [Warning n ''has wrong commands. Only l,r,f,b are valid commands'']\<rparr>,
                  [?a, ?b]))"
    and r0: "name (rovers st0 (rover pair)) \<noteq> [] \<longrightarrow>
        (\<exists>n. capitalize (name (rovers st0 (rover pair))) = Inr n \<and>
           commandRovers_p0 st0 [?a, ?b] =
             Inr (st0\<lparr>console := console st0 @
                    [Warning n ''has wrong commands. Only l,r,f,b are valid commands'']\<rparr>,
                  [?a, ?b]))"
    by blast
  have "pair \<in> set [?a, ?b]"
    unfolding cl by simp
  with p have pair: "pair = ?a"
    by (auto simp: hasWrongCommand_def)
  have nm: "name (rovers st (rover pair)) = ''Alpha''"
    and nm0: "name (rovers st0 (rover pair)) = ''Alpha''"
    by (simp_all add: pair rv rv0)
  from r have a: "commandRovers st [?a, ?b] =
       Inr (st\<lparr>console := [Warning ''Alpha''
                  ''has wrong commands. Only l,r,f,b are valid commands'']\<rparr>, [?a, ?b])"
    unfolding nm by (auto simp: con)
  from r0 have b: "commandRovers_p0 st0 [?a, ?b] =
       Inr (st0\<lparr>console := [Warning ''Alpha''
                  ''has wrong commands. Only l,r,f,b are valid commands'']\<rparr>, [?a, ?b])"
    unfolding nm0 by (auto simp: con0)
  show ?thesis
    by (rule exI [of _ st], rule exI [of _ st0]) (intro conjI st st0 a b)
qed


lemma showTravel_result:
  assumes "showTravel st r = Inr st'"
  shows "\<exists>n steps. capitalize (name (rovers st r)) = Inr n \<and> readLog (rovers st r) = Some steps \<and>
           st' = st\<lparr>console := console st @ [TravelLog n steps]\<rparr>"
  using assms by (auto simp: showTravel_def split: sum.splits option.splits)

lemma showTravel_p0_result:
  assumes "showTravel_p0 st r = Inr st'"
  shows "\<exists>n steps. capitalize (name (rovers st r)) = Inr n \<and> travelLog (rovers st r) = Some steps \<and>
           st' = st\<lparr>console := console st @ [TravelLog n steps]\<rparr>"
  using assms by (auto simp: showTravel_p0_def split: sum.splits option.splits)

lemma showTravels_result:
  assumes "showTravels st ps = Inr st'"
  shows "\<exists>evs. st' = st\<lparr>console := console st @ evs\<rparr> \<and>
           list_all2 (\<lambda>ev p. \<exists>n steps. capitalize (name (rovers st (rover p))) = Inr n \<and>
                        readLog (rovers st (rover p)) = Some steps \<and> ev = TravelLog n steps)
             evs ps"
  using assms
proof (induction ps arbitrary: st)
  case Nil
  then show ?case by simp
next
  case (Cons p ps)
  from Cons.prems obtain st1 where s1: "showTravel st (rover p) = Inr st1"
    and rest: "showTravels st1 ps = Inr st'"
    by (auto split: sum.splits)
  from showTravel_result [OF s1] obtain n steps
    where n: "capitalize (name (rovers st (rover p))) = Inr n"
      and l: "readLog (rovers st (rover p)) = Some steps"
      and st1: "st1 = st\<lparr>console := console st @ [TravelLog n steps]\<rparr>"
    by blast
  from Cons.IH [OF rest] obtain evs where st': "st' = st1\<lparr>console := console st1 @ evs\<rparr>"
    and all: "list_all2 (\<lambda>ev p. \<exists>n steps. capitalize (name (rovers st1 (rover p))) = Inr n \<and>
                        readLog (rovers st1 (rover p)) = Some steps \<and> ev = TravelLog n steps)
             evs ps"
    by blast
  have "st' = st\<lparr>console := console st @ (TravelLog n steps # evs)\<rparr>"
    using st' st1 by simp
  moreover have "list_all2 (\<lambda>ev p. \<exists>n steps. capitalize (name (rovers st (rover p))) = Inr n \<and>
                        readLog (rovers st (rover p)) = Some steps \<and> ev = TravelLog n steps)
             (TravelLog n steps # evs) (p # ps)"
    using all n l st1 by simp
  ultimately show ?case by blast
qed

lemma showTravels_p0_result:
  assumes "showTravels_p0 st ps = Inr st'"
  shows "\<exists>evs. st' = st\<lparr>console := console st @ evs\<rparr> \<and>
           list_all2 (\<lambda>ev p. \<exists>n steps. capitalize (name (rovers st (rover p))) = Inr n \<and>
                        travelLog (rovers st (rover p)) = Some steps \<and> ev = TravelLog n steps)
             evs ps"
  using assms
proof (induction ps arbitrary: st)
  case Nil
  then show ?case by simp
next
  case (Cons p ps)
  from Cons.prems obtain st1 where s1: "showTravel_p0 st (rover p) = Inr st1"
    and rest: "showTravels_p0 st1 ps = Inr st'"
    by (auto split: sum.splits)
  from showTravel_p0_result [OF s1] obtain n steps
    where n: "capitalize (name (rovers st (rover p))) = Inr n"
      and l: "travelLog (rovers st (rover p)) = Some steps"
      and st1: "st1 = st\<lparr>console := console st @ [TravelLog n steps]\<rparr>"
    by blast
  from Cons.IH [OF rest] obtain evs where st': "st' = st1\<lparr>console := console st1 @ evs\<rparr>"
    and all: "list_all2 (\<lambda>ev p. \<exists>n steps. capitalize (name (rovers st1 (rover p))) = Inr n \<and>
                        travelLog (rovers st1 (rover p)) = Some steps \<and> ev = TravelLog n steps)
             evs ps"
    by blast
  have "st' = st\<lparr>console := console st @ (TravelLog n steps # evs)\<rparr>"
    using st' st1 by simp
  moreover have "list_all2 (\<lambda>ev p. \<exists>n steps. capitalize (name (rovers st (rover p))) = Inr n \<and>
                        travelLog (rovers st (rover p)) = Some steps \<and> ev = TravelLog n steps)
             (TravelLog n steps # evs) (p # ps)"
    using all n l st1 by simp
  ultimately show ?case by blast
qed

lemma commandRovers_accepts:
  assumes "hasInvalidCommands cl = None" and "commandRovers st cl = Inr (st', cl')"
  shows "\<exists>orders st1. chainList cl = Inr (orders, cl') \<and> executeOrders st orders = Inr st1 \<and>
           showTravels st1 cl' = Inr st'"
  using assms by (auto simp: commandRovers_def split: sum.splits)

lemma commandRovers_p0_accepts:
  assumes "hasInvalidCommands cl = None" and "commandRovers_p0 st cl = Inr (st', cl')"
  shows "\<exists>orders st1. chainList cl = Inr (orders, cl') \<and> executeOrders_p0 st orders = Inr st1 \<and>
           showTravels_p0 st1 cl' = Inr st'"
  using assms by (auto simp: commandRovers_p0_def split: sum.splits)

lemma chainList_sorts:
  assumes "chainList cl = Inr (orders, cl')"
  shows "cl' = sortByLength cl"
  using assms by (auto simp: chainList_def Let_def split: list.splits)


text \<open>
  C10. Processing a batch whose strings are all valid permutes the caller's
  \<^verbatim>\<open>commandList\<close> array in place, in both files: when \<^verbatim>\<open>commandRovers\<close> returns, the
  array is the stable sort of the submitted one by descending command-string length (a
  permutation of it, in descending order of length, requests of equal length in
  submission order), and the travel logs are emitted, after the orders have run, one per
  request in the order of the sorted array.
\<close>

theorem commandRovers_sorts_the_callers_list:
  fixes st :: "entry world" and st0 :: "coords world"
  assumes "\<forall>p\<in>set commandList. \<not> hasWrongCommand (commands p)"
  shows
    "(commandRovers st commandList = Inr (st', commandList') \<longrightarrow>
        commandList' = sortByLength commandList \<and>
        mset commandList' = mset commandList \<and>
        sorted_wrt (\<lambda>p q. length (commands q) \<le> length (commands p)) commandList' \<and>
        (\<forall>k. filter (\<lambda>p. length (commands p) = k) commandList' =
             filter (\<lambda>p. length (commands p) = k) commandList) \<and>
        (\<exists>orders st1 evs.
           chainList commandList = Inr (orders, commandList') \<and>
           executeOrders st orders = Inr st1 \<and>
           st' = st1\<lparr>console := console st1 @ evs\<rparr> \<and>
           list_all2 (\<lambda>ev p. \<exists>n steps. capitalize (name (rovers st1 (rover p))) = Inr n \<and>
                        readLog (rovers st1 (rover p)) = Some steps \<and> ev = TravelLog n steps)
             evs commandList')) \<and>
     (commandRovers_p0 st0 commandList = Inr (st0', commandList0') \<longrightarrow>
        commandList0' = sortByLength commandList \<and>
        mset commandList0' = mset commandList \<and>
        sorted_wrt (\<lambda>p q. length (commands q) \<le> length (commands p)) commandList0' \<and>
        (\<forall>k. filter (\<lambda>p. length (commands p) = k) commandList0' =
             filter (\<lambda>p. length (commands p) = k) commandList) \<and>
        (\<exists>orders st1 evs.
           chainList commandList = Inr (orders, commandList0') \<and>
           executeOrders_p0 st0 orders = Inr st1 \<and>
           st0' = st1\<lparr>console := console st1 @ evs\<rparr> \<and>
           list_all2 (\<lambda>ev p. \<exists>n steps. capitalize (name (rovers st1 (rover p))) = Inr n \<and>
                        travelLog (rovers st1 (rover p)) = Some steps \<and> ev = TravelLog n steps)
             evs commandList0'))"
proof -
  have ok: "hasInvalidCommands commandList = None"
    using assms by (simp add: hasInvalidCommands_None)
  have sorted_facts: "mset cl' = mset commandList \<and>
        sorted_wrt (\<lambda>p q. length (commands q) \<le> length (commands p)) cl' \<and>
        (\<forall>k. filter (\<lambda>p. length (commands p) = k) cl' =
             filter (\<lambda>p. length (commands p) = k) commandList)"
    if "cl' = sortByLength commandList" for cl'
    using that sortByLength_props(1,5) [where cl = commandList]
      descending_sortByLength [of commandList] by simp
  have a: "commandList' = sortByLength commandList \<and>
        (\<exists>orders st1 evs.
           chainList commandList = Inr (orders, commandList') \<and>
           executeOrders st orders = Inr st1 \<and>
           st' = st1\<lparr>console := console st1 @ evs\<rparr> \<and>
           list_all2 (\<lambda>ev p. \<exists>n steps. capitalize (name (rovers st1 (rover p))) = Inr n \<and>
                        readLog (rovers st1 (rover p)) = Some steps \<and> ev = TravelLog n steps)
             evs commandList')"
    if run: "commandRovers st commandList = Inr (st', commandList')"
  proof -
    from commandRovers_accepts [OF ok run] obtain orders st1
      where c: "chainList commandList = Inr (orders, commandList')"
        and e: "executeOrders st orders = Inr st1"
        and t: "showTravels st1 commandList' = Inr st'"
      by blast
    from showTravels_result [OF t] c e chainList_sorts [OF c] show ?thesis
      by blast
  qed
  have b: "commandList0' = sortByLength commandList \<and>
        (\<exists>orders st1 evs.
           chainList commandList = Inr (orders, commandList0') \<and>
           executeOrders_p0 st0 orders = Inr st1 \<and>
           st0' = st1\<lparr>console := console st1 @ evs\<rparr> \<and>
           list_all2 (\<lambda>ev p. \<exists>n steps. capitalize (name (rovers st1 (rover p))) = Inr n \<and>
                        travelLog (rovers st1 (rover p)) = Some steps \<and> ev = TravelLog n steps)
             evs commandList0')"
    if run: "commandRovers_p0 st0 commandList = Inr (st0', commandList0')"
  proof -
    from commandRovers_p0_accepts [OF ok run] obtain orders st1
      where c: "chainList commandList = Inr (orders, commandList0')"
        and e: "executeOrders_p0 st0 orders = Inr st1"
        and t: "showTravels_p0 st1 commandList0' = Inr st0'"
      by blast
    from showTravels_p0_result [OF t] c e chainList_sorts [OF c] show ?thesis
      by blast
  qed
  show ?thesis
    using a b sorted_facts [of commandList'] sorted_facts [of commandList0'] by blast
qed

lemma run_js:
  "\<exists>st st'. placedWorld = Some st \<and>
     commandRovers st [\<lparr>rover = marsRoverAlpha, commands = ''f''\<rparr>,
                       \<lparr>rover = marsRoverBeta, commands = ''lf''\<rparr>] =
       Inr (st', [\<lparr>rover = marsRoverBeta, commands = ''lf''\<rparr>,
                  \<lparr>rover = marsRoverAlpha, commands = ''f''\<rparr>]) \<and>
     console st' = [TravelLog ''Beta'' [(2, 2), (2, 1)], TravelLog ''Alpha'' [(5, 5), (4, 5)]]"
  unfolding placedWorld_eq by (simp add: run_defs eval_nat_numeral)


lemma run_p0:
  "\<exists>st st'. placedWorld_p0 = Some st \<and>
     commandRovers_p0 st [\<lparr>rover = marsRoverAlpha, commands = ''f''\<rparr>,
                       \<lparr>rover = marsRoverBeta, commands = ''lf''\<rparr>] =
       Inr (st', [\<lparr>rover = marsRoverBeta, commands = ''lf''\<rparr>,
                  \<lparr>rover = marsRoverAlpha, commands = ''f''\<rparr>]) \<and>
     console st' = [TravelLog ''Beta'' [(2, 2), (1, 2)], TravelLog ''Alpha'' [(5, 5), (5, 4)]]"
  unfolding placedWorld_p0_eq by (simp add: run_defs eval_nat_numeral)

text \<open>
  An instance: Alpha with \<^verbatim>\<open>f\<close> is submitted before Beta with \<^verbatim>\<open>lf\<close>; the array comes
  back with Beta first, and Beta's travel log is printed first.
\<close>

theorem commandRovers_sorts_witness:
  "\<exists>st st' st0 st0'. placedWorld = Some st \<and> placedWorld_p0 = Some st0 \<and>
     commandRovers st [\<lparr>rover = marsRoverAlpha, commands = ''f''\<rparr>,
                       \<lparr>rover = marsRoverBeta, commands = ''lf''\<rparr>] =
       Inr (st', [\<lparr>rover = marsRoverBeta, commands = ''lf''\<rparr>,
                  \<lparr>rover = marsRoverAlpha, commands = ''f''\<rparr>]) \<and>
     console st' = [TravelLog ''Beta'' [(2, 2), (2, 1)], TravelLog ''Alpha'' [(5, 5), (4, 5)]] \<and>
     commandRovers_p0 st0 [\<lparr>rover = marsRoverAlpha, commands = ''f''\<rparr>,
                       \<lparr>rover = marsRoverBeta, commands = ''lf''\<rparr>] =
       Inr (st0', [\<lparr>rover = marsRoverBeta, commands = ''lf''\<rparr>,
                  \<lparr>rover = marsRoverAlpha, commands = ''f''\<rparr>]) \<and>
     console st0' = [TravelLog ''Beta'' [(2, 2), (1, 2)], TravelLog ''Alpha'' [(5, 5), (5, 4)]] \<and>
     sortByLength [\<lparr>rover = marsRoverAlpha, commands = ''f''\<rparr>,
                   \<lparr>rover = marsRoverBeta, commands = ''lf''\<rparr>] =
       [\<lparr>rover = marsRoverBeta, commands = ''lf''\<rparr>, \<lparr>rover = marsRoverAlpha, commands = ''f''\<rparr>]"
proof -
  let ?a = "\<lparr>rover = marsRoverAlpha, commands = ''f''\<rparr>"
  let ?b = "\<lparr>rover = marsRoverBeta, commands = ''lf''\<rparr>"
  obtain st st' where st: "placedWorld = Some st"
    and run: "commandRovers st [?a, ?b] = Inr (st', [?b, ?a])"
    and con: "console st' = [TravelLog ''Beta'' [(2, 2), (2, 1)], TravelLog ''Alpha'' [(5, 5), (4, 5)]]"
    using run_js by blast
  obtain st0 st0' where st0: "placedWorld_p0 = Some st0"
    and run0: "commandRovers_p0 st0 [?a, ?b] = Inr (st0', [?b, ?a])"
    and con0: "console st0' = [TravelLog ''Beta'' [(2, 2), (1, 2)], TravelLog ''Alpha'' [(5, 5), (5, 4)]]"
    using run_p0 by blast
  have valid: "\<forall>p\<in>set [?a, ?b]. \<not> hasWrongCommand (commands p)"
    by (simp add: hasWrongCommand_def)
  from commandRovers_sorts_the_callers_list [OF valid, of st st' "[?b, ?a]" st0 st0' "[?b, ?a]"]
  have "[?b, ?a] = sortByLength [?a, ?b]"
    using run run0 by blast
  then show ?thesis
    using st st0 run run0 con con0 by (intro exI [of _ st] exI [of _ st'] exI [of _ st0] exI [of _ st0']) simp
qed

subsection \<open>The loop and its cut-offs\<close>

text \<open>
  The loop returns a result exactly when one of its cut-offs does: what is proved of
  every cut-off, by induction on the number of iterations, holds of the loop.
\<close>

lemma upto_returns:
  "landscapeSetup_upto n rnd k p = Some r \<Longrightarrow> landscapeSetup_loop rnd k p = Some r"
proof (induction n arbitrary: k p)
  case 0
  then show ?case
    by (subst landscapeSetup_loop.simps) (simp split: if_splits)
next
  case (Suc n)
  show ?case
  proof (cases "snd (snd (snd p)) > 0")
    case False
    with Suc.prems show ?thesis
      by (subst landscapeSetup_loop.simps) simp
  next
    case True
    show ?thesis
    proof (cases "landscapeSetup_body (rnd k) p")
      case (Inl e)
      with True Suc.prems show ?thesis
        by (subst landscapeSetup_loop.simps) auto
    next
      case (Inr p')
      with True Suc.prems have "landscapeSetup_upto n rnd (Suc k) p' = Some r"
        by simp
      from Suc.IH [OF this] True Inr show ?thesis
        by (subst landscapeSetup_loop.simps) simp
    qed
  qed
qed

lemma loop_returns:
  assumes "landscapeSetup_loop rnd k p = Some r"
  shows "\<exists>n. landscapeSetup_upto n rnd k p = Some r"
proof (rule landscapeSetup_loop.raw_induct
    [where P = "\<lambda>rnd k p r. \<exists>n. landscapeSetup_upto n rnd k p = Some r", OF _ assms])
  fix loop :: "(nat \<Rightarrow> coords) \<Rightarrow> nat \<Rightarrow> entry placing \<Rightarrow> (error + entry placing) option"
  fix rnd k p r
  assume IH: "\<And>rnd k p r. loop rnd k p = Some r \<Longrightarrow> \<exists>n. landscapeSetup_upto n rnd k p = Some r"
    and eq: "(if 0 < snd (snd (snd p))
              then case landscapeSetup_body (rnd k) p of Inl e \<Rightarrow> Some (Inl e)
                   | Inr p' \<Rightarrow> loop rnd (Suc k) p'
              else Some (Inr p)) = Some r"
  show "\<exists>n. landscapeSetup_upto n rnd k p = Some r"
  proof (cases "snd (snd (snd p)) > 0")
    case False
    with eq have "landscapeSetup_upto 0 rnd k p = Some r"
      by simp
    then show ?thesis ..
  next
    case True
    show ?thesis
    proof (cases "landscapeSetup_body (rnd k) p")
      case (Inl e)
      with True eq have "landscapeSetup_upto (Suc 0) rnd k p = Some r"
        by auto
      then show ?thesis ..
    next
      case (Inr p')
      with True eq have "loop rnd (Suc k) p' = Some r"
        by simp
      from IH [OF this] obtain n where "landscapeSetup_upto n rnd (Suc k) p' = Some r"
        by blast
      with True Inr have "landscapeSetup_upto (Suc n) rnd k p = Some r"
        by simp
      then show ?thesis ..
    qed
  qed
qed

lemma loop_iff_upto:
  "landscapeSetup_loop rnd k p = Some r \<longleftrightarrow> (\<exists>n. landscapeSetup_upto n rnd k p = Some r)"
  using upto_returns loop_returns by blast

lemma loop_None_iff:
  "landscapeSetup_loop rnd k p = None \<longleftrightarrow> (\<forall>n. landscapeSetup_upto n rnd k p = None)"
  using loop_iff_upto [of rnd k p] by (metis not_Some_eq)


subsection \<open>Squares read and written\<close>

text \<open>
  Reading and writing a square through \<open>squareAt\<close>; a write inside a rectangular map
  keeps it rectangular, and the occupied squares change by the written square alone.
\<close>

lemma squareAt_read:
  "squareAt m c = Some v \<Longrightarrow> readSquare m (fst c) (snd c) = Inr (Some v)"
  by (auto simp: squareAt_def readSquare_def split: option.splits)

lemma squareAt_write:
  assumes "squareAt m c = Some v0"
  shows "\<exists>m'. writeSquare m (fst c) (snd c) v = Inr m' \<and> boundaries m' = boundaries m \<and>
           (\<forall>c'. squareAt m' c' = (if c' = c then Some v else squareAt m c'))"
proof -
  from assms obtain row where row: "squares m (fst c) = Some row"
    by (auto simp: squareAt_def split: option.splits)
  let ?m' = "m\<lparr>squares := (squares m)(fst c \<mapsto> row(snd c \<mapsto> v))\<rparr>"
  have "writeSquare m (fst c) (snd c) v = Inr ?m'"
    by (simp add: writeSquare_def row)
  moreover have "squareAt ?m' c' = (if c' = c then Some v else squareAt m c')" for c'
    using row by (cases c; cases c') (auto simp: squareAt_def)
  ultimately show ?thesis by simp
qed

lemma writeSquare_squareAt:
  assumes "writeSquare m (fst c) (snd c) v = Inr m'"
  shows "boundaries m' = boundaries m \<and>
         (\<forall>c'. squareAt m' c' = (if c' = c then Some v else squareAt m c'))"
proof -
  from assms obtain row where row: "squares m (fst c) = Some row"
    and m': "m' = m\<lparr>squares := (squares m)(fst c \<mapsto> row(snd c \<mapsto> v))\<rparr>"
    by (auto simp: writeSquare_def split: option.splits)
  have "squareAt m' c' = (if c' = c then Some v else squareAt m c')" for c'
    using row m' by (cases c; cases c') (auto simp: squareAt_def)
  then show ?thesis using m' by simp
qed

lemma insideMap_boundaries:
  "boundaries m' = boundaries m \<Longrightarrow> insideMap m' c = insideMap m c"
  by (simp add: insideMap_def)

lemma rectangularD:
  assumes "rectangular m"
  shows "(squareAt m c \<noteq> None) = insideMap m c"
    and "top_bound (boundaries m) = - 1" and "left (boundaries m) = - 1"
  using assms unfolding rectangular_def by blast+

lemma rectangularI:
  assumes "\<And>c. (squareAt m c \<noteq> None) = insideMap m c"
    and "top_bound (boundaries m) = - 1" and "left (boundaries m) = - 1"
  shows "rectangular m"
  using assms unfolding rectangular_def by blast

lemma rectangular_write:
  assumes "rectangular m" and "squareAt m c \<noteq> None" and "boundaries m' = boundaries m"
    and "\<forall>c'. squareAt m' c' = (if c' = c then Some v else squareAt m c')"
  shows "rectangular m'"
proof (rule rectangularI)
  have sq: "squareAt m' c' = (if c' = c then Some v else squareAt m c')" for c'
    using assms(4) by blast
  have in_c: "insideMap m c"
    using assms(2) rectangularD(1) [OF assms(1)] by blast
  show "(squareAt m' c' \<noteq> None) = insideMap m' c'" for c'
  proof (cases "c' = c")
    case True
    then show ?thesis
      using in_c by (simp add: sq insideMap_boundaries [OF assms(3)])
  next
    case False
    then show ?thesis
      using rectangularD(1) [OF assms(1)] by (simp add: sq insideMap_boundaries [OF assms(3)])
  qed
  show "top_bound (boundaries m') = - 1" "left (boundaries m') = - 1"
    using rectangularD(2,3) [OF assms(1)] assms(3) by simp_all
qed

lemma occupiedCells_write:
  assumes "\<forall>c'. squareAt m' c' = (if c' = c then Some v else squareAt m c')"
  shows "occupiedCells m' = (if v = Empty then occupiedCells m - {c} else insert c (occupiedCells m))"
proof -
  have sq: "squareAt m' c' = (if c' = c then Some v else squareAt m c')" for c'
    using assms by blast
  have "c' \<in> occupiedCells m' \<longleftrightarrow>
      c' \<in> (if v = Empty then occupiedCells m - {c} else insert c (occupiedCells m))" for c'
    by (cases "c' = c") (simp_all add: occupiedCells_def sq)
  then show ?thesis by blast
qed

lemma inside_finite: "finite {c. insideMap m c}"
proof -
  have "{c. insideMap m c} \<subseteq>
      {top_bound (boundaries m)..down (boundaries m)} \<times> {left (boundaries m)..right (boundaries m)}"
    by (auto simp: insideMap_def)
  then show ?thesis
    by (rule finite_subset) simp
qed

lemma occupied_inside:
  assumes "rectangular m"
  shows "occupiedCells m \<subseteq> {c. insideMap m c}"
proof
  fix c assume "c \<in> occupiedCells m"
  then have "squareAt m c \<noteq> None"
    by (auto simp: occupiedCells_def)
  then show "c \<in> {c. insideMap m c}"
    using rectangularD(1) [OF assms] by blast
qed

lemma occupied_finite: "rectangular m \<Longrightarrow> finite (occupiedCells m)"
  using occupied_inside inside_finite by (metis finite_subset)

lemma generateMap_squareAt:
  assumes "generateMap xSize ySize = Some m"
  shows "squareAt m c = (if insideMap m c then Some Empty else None)"
    and "boundaries m = \<lparr>left = - 1, right = ySize, top_bound = - 1, down = xSize\<rparr>"
    and "0 < xSize" and "0 < ySize"
  using assms
  by (auto simp: generateMap_def squareAt_def insideMap_def fillSquares_apply fillRow_apply
      split: if_splits)

lemma generateMap_rectangular:
  assumes "generateMap xSize ySize = Some m"
  shows "rectangular m" and "occupiedCells m = {}"
proof -
  note g = generateMap_squareAt [OF assms]
  show "rectangular m"
    by (rule rectangularI) (simp_all add: g)
  show "occupiedCells m = {}"
    by (auto simp: occupiedCells_def g(1) split: if_splits)
qed


subsection \<open>One iteration of the placement loop\<close>

text \<open>
  The three ways through the body of the loop: the drawn square is occupied and nothing
  changes, or it is empty and takes an obstacle, or it is empty and takes the last rover
  of the array.
\<close>

lemma case_nonempty: "xs \<noteq> [] \<Longrightarrow> (case xs of [] \<Rightarrow> a | _ # _ \<Rightarrow> b) = b"
  by (cases xs) simp_all

lemma body_step:
  assumes "rectangular (marsMap st)" and "insideMap (marsMap st) c"
    and "0 \<le> numObst" and "deploys = numObst + int (length rvs)" and "0 < deploys"
  obtains (miss) v where "squareAt (marsMap st) c = Some v" and "v \<noteq> Empty"
      and "landscapeSetup_body c (st, numObst, rvs, deploys) = Inr (st, numObst, rvs, deploys)"
    | (rock) m' where "squareAt (marsMap st) c = Some Empty" and "0 < numObst"
      and "boundaries m' = boundaries (marsMap st)"
      and "\<forall>c'. squareAt m' c' = (if c' = c then Some Obstacle else squareAt (marsMap st) c')"
      and "landscapeSetup_body c (st, numObst, rvs, deploys) =
             Inr (st\<lparr>marsMap := m'\<rparr>, numObst - 1, rvs, deploys - 1)"
    | (rover) m' where "squareAt (marsMap st) c = Some Empty" and "numObst = 0" and "rvs \<noteq> []"
      and "boundaries m' = boundaries (marsMap st)"
      and "\<forall>c'. squareAt m' c' =
             (if c' = c then Some (RoverRef (last rvs)) else squareAt (marsMap st) c')"
      and "landscapeSetup_body c (st, numObst, rvs, deploys) =
             Inr (st\<lparr>marsMap := m',
                     rovers := (rovers st)
                       (last rvs := (rovers st (last rvs))
                          \<lparr>currentCoords := Some c, travelLog := Some [ObjectLiteral c]\<rparr>)\<rparr>,
                  numObst, butlast rvs, deploys - 1)"
proof -
  from assms(1,2) obtain v where v: "squareAt (marsMap st) c = Some v"
    using rectangularD(1) by blast
  note rd = squareAt_read [OF v]
  show thesis
  proof (cases "v = Empty")
    case False
    then have "landscapeSetup_body c (st, numObst, rvs, deploys) = Inr (st, numObst, rvs, deploys)"
      by (simp add: landscapeSetup_body_def rd)
    with v False show thesis by (rule miss)
  next
    case True
    show thesis
    proof (cases "0 < numObst")
      case True
      from squareAt_write [OF v, of Obstacle] obtain m'
        where w: "writeSquare (marsMap st) (fst c) (snd c) Obstacle = Inr m'"
          and b: "boundaries m' = boundaries (marsMap st)"
          and sq: "\<forall>c'. squareAt m' c' = (if c' = c then Some Obstacle else squareAt (marsMap st) c')"
        by blast
      have "landscapeSetup_body c (st, numObst, rvs, deploys) =
             Inr (st\<lparr>marsMap := m'\<rparr>, numObst - 1, rvs, deploys - 1)"
        using \<open>v = Empty\<close> True by (simp add: landscapeSetup_body_def rd w)
      with v \<open>v = Empty\<close> True b sq show thesis by (auto intro: rock)
    next
      case False
      then have n0: "numObst = 0" using assms(3) by simp
      then have ne: "rvs \<noteq> []" using assms(4,5) by auto
      from squareAt_write [OF v, of "RoverRef (last rvs)"] obtain m'
        where w: "writeSquare (marsMap st) (fst c) (snd c) (RoverRef (last rvs)) = Inr m'"
          and b: "boundaries m' = boundaries (marsMap st)"
          and sq: "\<forall>c'. squareAt m' c' =
             (if c' = c then Some (RoverRef (last rvs)) else squareAt (marsMap st) c')"
        by blast
      have "landscapeSetup_body c (st, numObst, rvs, deploys) =
             Inr (st\<lparr>marsMap := m',
                     rovers := (rovers st)
                       (last rvs := (rovers st (last rvs))
                          \<lparr>currentCoords := Some c, travelLog := Some [ObjectLiteral c]\<rparr>)\<rparr>,
                  numObst, butlast rvs, deploys - 1)"
        using \<open>v = Empty\<close> n0 by (simp add: landscapeSetup_body_def rd w case_nonempty [OF ne])
      with v \<open>v = Empty\<close> n0 ne b sq show thesis by (auto intro: rover)
    qed
  qed
qed


subsection \<open>Invariants of the placement loop\<close>

text \<open>
  The invariant \<open>placingInv\<close> holds after every iteration, so no iteration raises an
  error, and at the exit nothing is left to place.
\<close>

lemma placingInvI:
  assumes "rectangular (marsMap st)" and "boundaries (marsMap st) = B" and "console st = C"
    and "\<And>k. insideMap (marsMap st) (rnd k)"
    and "0 \<le> numObst" and "deploys = numObst + int (length rvs)"
    and "int (card (occupiedCells (marsMap st))) + deploys = amount"
    and "\<And>r. r \<in> set rvs0 \<Longrightarrow> r \<in> set rvs \<or>
           (\<exists>c. currentCoords (rovers st r) = Some c \<and>
                travelLog (rovers st r) = Some [ObjectLiteral c] \<and>
                squareAt (marsMap st) c = Some (RoverRef r))"
  shows "placingInv rnd B C amount rvs0 (st, numObst, rvs, deploys)"
  unfolding placingInv_def prod.case using assms by blast

lemma placingInvD:
  assumes "placingInv rnd B C amount rvs0 (st, numObst, rvs, deploys)"
  shows "rectangular (marsMap st)" and "boundaries (marsMap st) = B" and "console st = C"
    and "\<And>k. insideMap (marsMap st) (rnd k)"
    and "0 \<le> numObst" and "deploys = numObst + int (length rvs)"
    and "int (card (occupiedCells (marsMap st))) + deploys = amount"
    and "\<And>r. r \<in> set rvs0 \<Longrightarrow> r \<in> set rvs \<or>
           (\<exists>c. currentCoords (rovers st r) = Some c \<and>
                travelLog (rovers st r) = Some [ObjectLiteral c] \<and>
                squareAt (marsMap st) c = Some (RoverRef r))"
  using assms unfolding placingInv_def prod.case by blast+

lemma placingInv_body:
  assumes inv: "placingInv rnd B C amount rvs0 p" and pos: "0 < snd (snd (snd p))"
  shows "\<exists>p'. landscapeSetup_body (rnd k) p = Inr p' \<and> placingInv rnd B C amount rvs0 p'"
proof -
  obtain st numObst rvs deploys where p: "p = (st, numObst, rvs, deploys)"
    by (cases p) auto
  note D = placingInvD [OF inv [unfolded p]]
  note rect = D(1) and B = D(2) and C = D(3) and ins = D(4) and n0 = D(5) and d = D(6)
    and tot = D(7) and pl = D(8)
  from pos have dpos: "0 < deploys" by (simp add: p)
  let ?c = "rnd k"
  from rect ins [of k] n0 d dpos show ?thesis
  proof (cases rule: body_step [where c = ?c and st = st and rvs = rvs])
    case (miss v)
    then show ?thesis using inv by (simp add: p)
  next
    case (rock m')
    have sq: "squareAt m' c' = (if c' = ?c then Some Obstacle else squareAt (marsMap st) c')" for c'
      using rock(4) by blast
    have ex: "squareAt (marsMap st) ?c \<noteq> None"
      using rock(1) by simp
    have r': "rectangular m'"
      by (rule rectangular_write [OF rect ex rock(3,4)])
    have notin: "?c \<notin> occupiedCells (marsMap st)"
      using rock(1) by (simp add: occupiedCells_def)
    have occ: "occupiedCells m' = insert ?c (occupiedCells (marsMap st))"
      using occupiedCells_write [OF rock(4)] by simp
    have card: "card (occupiedCells m') = Suc (card (occupiedCells (marsMap st)))"
      using notin occupied_finite [OF rect] by (simp add: occ)
    have "placingInv rnd B C amount rvs0 (st\<lparr>marsMap := m'\<rparr>, numObst - 1, rvs, deploys - 1)"
    proof (rule placingInvI)
      show "rectangular (marsMap (st\<lparr>marsMap := m'\<rparr>))" using r' by simp
      show "boundaries (marsMap (st\<lparr>marsMap := m'\<rparr>)) = B" using rock(3) B by simp
      show "console (st\<lparr>marsMap := m'\<rparr>) = C" using C by simp
      show "insideMap (marsMap (st\<lparr>marsMap := m'\<rparr>)) (rnd k)" for k
        using ins [of k] by (simp add: insideMap_boundaries [OF rock(3)])
      show "0 \<le> numObst - 1" using rock(2) by simp
      show "deploys - 1 = numObst - 1 + int (length rvs)" using d by simp
      show "int (card (occupiedCells (marsMap (st\<lparr>marsMap := m'\<rparr>)))) + (deploys - 1) = amount"
        using tot by (simp add: card)
      show "r \<in> set rvs \<or>
           (\<exists>c. currentCoords (rovers (st\<lparr>marsMap := m'\<rparr>) r) = Some c \<and>
                travelLog (rovers (st\<lparr>marsMap := m'\<rparr>) r) = Some [ObjectLiteral c] \<and>
                squareAt (marsMap (st\<lparr>marsMap := m'\<rparr>)) c = Some (RoverRef r))"
        if "r \<in> set rvs0" for r
      proof (rule disjE [OF pl [OF that]])
        assume "r \<in> set rvs"
        then show ?thesis ..
      next
        assume "\<exists>c. currentCoords (rovers st r) = Some c \<and>
                travelLog (rovers st r) = Some [ObjectLiteral c] \<and>
                squareAt (marsMap st) c = Some (RoverRef r)"
        then obtain c where c: "currentCoords (rovers st r) = Some c"
          "travelLog (rovers st r) = Some [ObjectLiteral c]"
          "squareAt (marsMap st) c = Some (RoverRef r)"
          by blast
        then have "c \<noteq> ?c" using rock(1) by auto
        then have "squareAt m' c = Some (RoverRef r)" using c(3) by (simp add: sq)
        with c(1,2) show ?thesis by simp
      qed
    qed
    then show ?thesis using rock(5) by (simp add: p)
  next
    case (rover m')
    let ?r = "last rvs"
    let ?st' = "st\<lparr>marsMap := m',
                     rovers := (rovers st)
                       (?r := (rovers st ?r)
                          \<lparr>currentCoords := Some ?c, travelLog := Some [ObjectLiteral ?c]\<rparr>)\<rparr>"
    have sq: "squareAt m' c' = (if c' = ?c then Some (RoverRef ?r) else squareAt (marsMap st) c')" for c'
      using rover(5) by blast
    have ex: "squareAt (marsMap st) ?c \<noteq> None"
      using rover(1) by simp
    have r': "rectangular m'"
      by (rule rectangular_write [OF rect ex rover(4,5)])
    have notin: "?c \<notin> occupiedCells (marsMap st)"
      using rover(1) by (simp add: occupiedCells_def)
    have occ: "occupiedCells m' = insert ?c (occupiedCells (marsMap st))"
      using occupiedCells_write [OF rover(5)] by simp
    have card: "card (occupiedCells m') = Suc (card (occupiedCells (marsMap st)))"
      using notin occupied_finite [OF rect] by (simp add: occ)
    have len: "int (length (butlast rvs)) = int (length rvs) - 1"
      using rover(3) by (simp add: of_nat_diff Suc_leI)
    have "placingInv rnd B C amount rvs0 (?st', numObst, butlast rvs, deploys - 1)"
    proof (rule placingInvI)
      show "rectangular (marsMap ?st')" using r' by simp
      show "boundaries (marsMap ?st') = B" using rover(4) B by simp
      show "console ?st' = C" using C by simp
      show "insideMap (marsMap ?st') (rnd k)" for k
        using ins [of k] by (simp add: insideMap_boundaries [OF rover(4)])
      show "0 \<le> numObst" by (rule n0)
      show "deploys - 1 = numObst + int (length (butlast rvs))" using d len by simp
      show "int (card (occupiedCells (marsMap ?st'))) + (deploys - 1) = amount"
        using tot by (simp add: card)
      show "r \<in> set (butlast rvs) \<or>
           (\<exists>c. currentCoords (rovers ?st' r) = Some c \<and>
                travelLog (rovers ?st' r) = Some [ObjectLiteral c] \<and>
                squareAt (marsMap ?st') c = Some (RoverRef r))"
        if "r \<in> set rvs0" for r
      proof (cases "r = ?r")
        case True
        then show ?thesis by (simp add: sq)
      next
        case False
        show ?thesis
        proof (rule disjE [OF pl [OF that]])
          assume "r \<in> set rvs"
          then have "r \<in> set (butlast rvs @ [?r])"
            using rover(3) by simp
          then show ?thesis using False by simp
        next
          assume "\<exists>c. currentCoords (rovers st r) = Some c \<and>
                travelLog (rovers st r) = Some [ObjectLiteral c] \<and>
                squareAt (marsMap st) c = Some (RoverRef r)"
          then obtain c where c: "currentCoords (rovers st r) = Some c"
            "travelLog (rovers st r) = Some [ObjectLiteral c]"
            "squareAt (marsMap st) c = Some (RoverRef r)"
            by blast
          then have "c \<noteq> ?c" using rover(1) by auto
          then have "squareAt m' c = Some (RoverRef r)" using c(3) by (simp add: sq)
          with c(1,2) False show ?thesis by simp
        qed
      qed
    qed
    then show ?thesis using rover(6) by (simp add: p)
  qed
qed

lemma placingInv_exit:
  assumes "placingInv rnd B C amount rvs0 p" and "\<not> 0 < snd (snd (snd p))"
  shows "\<exists>st. p = (st, 0, [], 0)"
proof -
  obtain st numObst rvs deploys where p: "p = (st, numObst, rvs, deploys)"
    by (cases p) auto
  note D = placingInvD [OF assms(1) [unfolded p]]
  from assms(2) have "deploys \<le> 0" by (simp add: p)
  with D(5,6) have "numObst = 0" and "length rvs = 0" and "deploys = 0"
    by linarith+
  then show ?thesis by (simp add: p)
qed

lemma upto_placingInv:
  assumes "landscapeSetup_upto n rnd k p = Some res" and "placingInv rnd B C amount rvs0 p"
  shows "\<exists>st. res = Inr (st, 0, [], 0) \<and> placingInv rnd B C amount rvs0 (st, 0, [], 0)"
  using assms
proof (induction n arbitrary: k p)
  case 0
  then have "\<not> 0 < snd (snd (snd p))" and "res = Inr p"
    by (auto split: if_splits)
  with placingInv_exit [OF 0(2)] 0(2) show ?case by auto
next
  case (Suc n)
  show ?case
  proof (cases "0 < snd (snd (snd p))")
    case False
    with Suc.prems(1) have "res = Inr p" by simp
    with placingInv_exit [OF Suc.prems(2) False] Suc.prems(2) show ?thesis by auto
  next
    case True
    from placingInv_body [OF Suc.prems(2) True, of k] obtain p'
      where b: "landscapeSetup_body (rnd k) p = Inr p'" and i: "placingInv rnd B C amount rvs0 p'"
      by blast
    from Suc.prems(1) True b have "landscapeSetup_upto n rnd (Suc k) p' = Some res"
      by simp
    from Suc.IH [OF this i] show ?thesis .
  qed
qed


subsection \<open>When the placement loop returns\<close>

text \<open>
  An iteration places something exactly when its sample is a square not drawn before.
  The cut-off after \<open>n\<close> iterations has returned exactly when the \<open>n\<close> samples hold as many
  new squares as there are items left.
\<close>

lemma placingInv_progress:
  assumes inv: "placingInv rnd B C amount rvs0 p" and pos: "0 < snd (snd (snd p))"
  shows "\<exists>p'. landscapeSetup_body (rnd k) p = Inr p' \<and>
           ((p' = p \<and> rnd k \<in> occupiedCells (marsMap (fst p))) \<or>
            (rnd k \<notin> occupiedCells (marsMap (fst p)) \<and>
             occupiedCells (marsMap (fst p')) = insert (rnd k) (occupiedCells (marsMap (fst p))) \<and>
             snd (snd (snd p')) = snd (snd (snd p)) - 1))"
proof -
  obtain st numObst rvs deploys where p: "p = (st, numObst, rvs, deploys)"
    by (cases p) auto
  note D = placingInvD [OF inv [unfolded p]]
  from pos have dpos: "0 < deploys" by (simp add: p)
  let ?c = "rnd k"
  from D(1) D(4) [of k] D(5,6) dpos show ?thesis
  proof (cases rule: body_step [where c = ?c and st = st and rvs = rvs])
    case (miss v)
    then have "?c \<in> occupiedCells (marsMap st)"
      by (simp add: occupiedCells_def)
    with miss(3) show ?thesis by (simp add: p)
  next
    case (rock m')
    have "?c \<notin> occupiedCells (marsMap st)"
      using rock(1) by (simp add: occupiedCells_def)
    moreover have "occupiedCells m' = insert ?c (occupiedCells (marsMap st))"
      using occupiedCells_write [OF rock(4)] by simp
    ultimately show ?thesis using rock(5) by (simp add: p)
  next
    case (rover m')
    have "?c \<notin> occupiedCells (marsMap st)"
      using rover(1) by (simp add: occupiedCells_def)
    moreover have "occupiedCells m' = insert ?c (occupiedCells (marsMap st))"
      using occupiedCells_write [OF rover(5)] by simp
    ultimately show ?thesis using rover(6) by (simp add: p)
  qed
qed

lemma image_from: "rnd ` {k..<k + Suc n} = insert (rnd k) (rnd ` {Suc k..<Suc k + n})"
proof -
  have "{k..<k + Suc n} = insert k {Suc k..<Suc k + n}"
    by auto
  then show ?thesis by simp
qed

lemma enough_samples_return:
  assumes "placingInv rnd B C amount rvs0 p"
    and "nat (snd (snd (snd p))) \<le> card (rnd ` {k..<k + n} - occupiedCells (marsMap (fst p)))"
  shows "\<exists>res. landscapeSetup_upto n rnd k p = Some res"
  using assms
proof (induction n arbitrary: k p)
  case 0
  then show ?case by simp
next
  case (Suc n)
  show ?case
  proof (cases "0 < snd (snd (snd p))")
    case False
    then show ?thesis by simp
  next
    case True
    let ?O = "occupiedCells (marsMap (fst p))"
    let ?S = "rnd ` {k..<k + Suc n} - ?O"
    from placingInv_body [OF Suc.prems(1) True, of k] obtain p'
      where b: "landscapeSetup_body (rnd k) p = Inr p'" and i: "placingInv rnd B C amount rvs0 p'"
      by blast
    from placingInv_progress [OF Suc.prems(1) True, of k] b
    consider (miss) "p' = p" "rnd k \<in> ?O"
      | (hit) "rnd k \<notin> ?O" "occupiedCells (marsMap (fst p')) = insert (rnd k) ?O"
          "snd (snd (snd p')) = snd (snd (snd p)) - 1"
      by auto
    then have "nat (snd (snd (snd p'))) \<le>
        card (rnd ` {Suc k..<Suc k + n} - occupiedCells (marsMap (fst p')))"
    proof cases
      case miss
      then have "rnd ` {Suc k..<Suc k + n} - ?O = ?S"
        unfolding image_from by auto
      then show ?thesis using Suc.prems(2) miss(1) by simp
    next
      case hit
      have "rnd ` {Suc k..<Suc k + n} - insert (rnd k) ?O = ?S - {rnd k}"
        unfolding image_from by auto
      moreover have "card ?S - 1 \<le> card (?S - {rnd k})"
        by (simp add: card_Diff_singleton_if)
      ultimately show ?thesis using Suc.prems(2) hit(2,3) True by simp
    qed
    from Suc.IH [OF i this] b True show ?thesis by simp
  qed
qed

lemma return_needs_samples:
  assumes "placingInv rnd B C amount rvs0 p" and "landscapeSetup_upto n rnd k p = Some res"
  shows "nat (snd (snd (snd p))) \<le> card (rnd ` {k..<k + n} - occupiedCells (marsMap (fst p)))"
  using assms
proof (induction n arbitrary: k p)
  case 0
  then show ?case by (simp split: if_splits)
next
  case (Suc n)
  show ?case
  proof (cases "0 < snd (snd (snd p))")
    case False
    then show ?thesis by simp
  next
    case True
    let ?O = "occupiedCells (marsMap (fst p))"
    let ?S = "rnd ` {k..<k + Suc n} - ?O"
    from placingInv_body [OF Suc.prems(1) True, of k] obtain p'
      where b: "landscapeSetup_body (rnd k) p = Inr p'" and i: "placingInv rnd B C amount rvs0 p'"
      by blast
    from Suc.prems(2) True b have run: "landscapeSetup_upto n rnd (Suc k) p' = Some res"
      by simp
    note IH = Suc.IH [OF i run]
    from placingInv_progress [OF Suc.prems(1) True, of k] b
    consider (miss) "p' = p" "rnd k \<in> ?O"
      | (hit) "rnd k \<notin> ?O" "occupiedCells (marsMap (fst p')) = insert (rnd k) ?O"
          "snd (snd (snd p')) = snd (snd (snd p)) - 1"
      by auto
    then show ?thesis
    proof cases
      case miss
      then have "rnd ` {Suc k..<Suc k + n} - ?O = ?S"
        unfolding image_from by auto
      then show ?thesis using IH miss(1) by simp
    next
      case hit
      have eq: "rnd ` {Suc k..<Suc k + n} - insert (rnd k) ?O = ?S - {rnd k}"
        unfolding image_from by auto
      have "rnd k \<in> ?S"
        using hit(1) unfolding image_from by simp
      moreover have "finite ?S"
        by simp
      ultimately have "card ?S = Suc (card (?S - {rnd k}))"
        by (metis card.remove)
      then show ?thesis using IH hit(2,3) eq True by simp
    qed
  qed
qed


subsection \<open>The invariant of the data model during placement\<close>

text \<open>
  Placing a rover that is not yet on the map keeps the invariant of the data model, for
  the rovers placed so far.
\<close>

lemma consistentI:
  assumes "\<And>c r. squareAt (marsMap st) c = Some (RoverRef r) \<Longrightarrow>
             r \<in> R \<and> currentCoords (rovers st r) = Some c"
    and "\<And>r. r \<in> R \<Longrightarrow>
             \<exists>c. currentCoords (rovers st r) = Some c \<and> squareAt (marsMap st) c = Some (RoverRef r)"
  shows "consistent st R"
  unfolding consistent_def using assms by blast

lemma consistentD:
  assumes "consistent st R"
  shows "\<And>c r. squareAt (marsMap st) c = Some (RoverRef r) \<Longrightarrow>
             r \<in> R \<and> currentCoords (rovers st r) = Some c"
    and "\<And>r. r \<in> R \<Longrightarrow>
             \<exists>c. currentCoords (rovers st r) = Some c \<and> squareAt (marsMap st) c = Some (RoverRef r)"
  using assms unfolding consistent_def by blast+

lemma placingConsistent_body:
  assumes inv: "placingInv rnd B C amount rvs0 p" and cons: "placingConsistent rvs0 p"
    and pos: "0 < snd (snd (snd p))"
  shows "\<exists>p'. landscapeSetup_body (rnd k) p = Inr p' \<and> placingConsistent rvs0 p'"
proof -
  obtain st numObst rvs deploys where p: "p = (st, numObst, rvs, deploys)"
    by (cases p) auto
  note D = placingInvD [OF inv [unfolded p]]
  from cons have dist: "distinct rvs" and sub: "set rvs \<subseteq> set rvs0"
    and con: "consistent st (set rvs0 - set rvs)"
    unfolding placingConsistent_def p by simp_all
  note cD = consistentD [OF con]
  from pos have dpos: "0 < deploys" by (simp add: p)
  let ?c = "rnd k"
  from D(1) D(4) [of k] D(5,6) dpos show ?thesis
  proof (cases rule: body_step [where c = ?c and st = st and rvs = rvs])
    case (miss v)
    then show ?thesis using cons by (simp add: p)
  next
    case (rock m')
    have sq: "squareAt m' c' = (if c' = ?c then Some Obstacle else squareAt (marsMap st) c')" for c'
      using rock(4) by blast
    have "consistent (st\<lparr>marsMap := m'\<rparr>) (set rvs0 - set rvs)"
    proof (rule consistentI)
      fix c r assume "squareAt (marsMap (st\<lparr>marsMap := m'\<rparr>)) c = Some (RoverRef r)"
      then have "squareAt (marsMap st) c = Some (RoverRef r)"
        by (simp add: sq split: if_splits)
      from cD(1) [OF this]
      show "r \<in> set rvs0 - set rvs \<and> currentCoords (rovers (st\<lparr>marsMap := m'\<rparr>) r) = Some c"
        by simp
    next
      fix r assume "r \<in> set rvs0 - set rvs"
      from cD(2) [OF this] obtain c where c: "currentCoords (rovers st r) = Some c"
        "squareAt (marsMap st) c = Some (RoverRef r)"
        by blast
      then have "c \<noteq> ?c" using rock(1) by auto
      then have "squareAt m' c = Some (RoverRef r)" using c(2) by (simp add: sq)
      with c(1) show "\<exists>c. currentCoords (rovers (st\<lparr>marsMap := m'\<rparr>) r) = Some c \<and>
          squareAt (marsMap (st\<lparr>marsMap := m'\<rparr>)) c = Some (RoverRef r)"
        by simp
    qed
    then have "placingConsistent rvs0 (st\<lparr>marsMap := m'\<rparr>, numObst - 1, rvs, deploys - 1)"
      unfolding placingConsistent_def using dist sub by simp
    then show ?thesis using rock(5) by (simp add: p)
  next
    case (rover m')
    let ?r = "last rvs"
    let ?st' = "st\<lparr>marsMap := m',
                     rovers := (rovers st)
                       (?r := (rovers st ?r)
                          \<lparr>currentCoords := Some ?c, travelLog := Some [ObjectLiteral ?c]\<rparr>)\<rparr>"
    have sq: "squareAt m' c' = (if c' = ?c then Some (RoverRef ?r) else squareAt (marsMap st) c')" for c'
      using rover(5) by blast
    have split: "rvs = butlast rvs @ [?r]"
      using rover(3) by simp
    have r_new: "?r \<notin> set (butlast rvs)"
      using dist split by (metis distinct_append disjoint_iff_not_equal list.set_intros(1))
    have r_in: "?r \<in> set rvs0"
      using sub rover(3) by auto
    have r_old: "?r \<notin> set rvs0 - set rvs"
      using rover(3) by simp
    have R': "set rvs0 - set (butlast rvs) = insert ?r (set rvs0 - set rvs)"
    proof -
      have "set rvs = insert ?r (set (butlast rvs))"
        using split by (metis Un_insert_right append_Nil2 list.simps(15) set_append)
      then show ?thesis using r_new r_in by auto
    qed
    have "consistent ?st' (insert ?r (set rvs0 - set rvs))"
    proof (rule consistentI)
      fix c r assume a: "squareAt (marsMap ?st') c = Some (RoverRef r)"
      show "r \<in> insert ?r (set rvs0 - set rvs) \<and> currentCoords (rovers ?st' r) = Some c"
      proof (cases "c = ?c")
        case True
        with a show ?thesis by (simp add: sq)
      next
        case False
        with a have "squareAt (marsMap st) c = Some (RoverRef r)"
          by (simp add: sq)
        from cD(1) [OF this] show ?thesis using r_old by auto
      qed
    next
      fix r assume a: "r \<in> insert ?r (set rvs0 - set rvs)"
      show "\<exists>c. currentCoords (rovers ?st' r) = Some c \<and>
          squareAt (marsMap ?st') c = Some (RoverRef r)"
      proof (cases "r = ?r")
        case True
        then show ?thesis by (simp add: sq)
      next
        case False
        with a have "r \<in> set rvs0 - set rvs" by simp
        from cD(2) [OF this] obtain c where c: "currentCoords (rovers st r) = Some c"
          "squareAt (marsMap st) c = Some (RoverRef r)"
          by blast
        then have "c \<noteq> ?c" using rover(1) by auto
        then have "squareAt m' c = Some (RoverRef r)" using c(2) by (simp add: sq)
        with c(1) False show ?thesis by simp
      qed
    qed
    then have "placingConsistent rvs0 (?st', numObst, butlast rvs, deploys - 1)"
      unfolding placingConsistent_def prod.case R'
      using dist sub by (auto simp: distinct_butlast dest: in_set_butlastD)
    then show ?thesis using rover(6) by (simp add: p)
  qed
qed

lemma upto_placingConsistent:
  assumes "landscapeSetup_upto n rnd k p = Some res" and "placingInv rnd B C amount rvs0 p"
    and "placingConsistent rvs0 p"
  shows "\<exists>st. res = Inr (st, 0, [], 0) \<and> placingConsistent rvs0 (st, 0, [], 0)"
  using assms
proof (induction n arbitrary: k p)
  case 0
  then have "\<not> 0 < snd (snd (snd p))" and "res = Inr p"
    by (auto split: if_splits)
  with placingInv_exit [OF 0(2)] 0(3) show ?case by auto
next
  case (Suc n)
  show ?case
  proof (cases "0 < snd (snd (snd p))")
    case False
    with Suc.prems(1) have "res = Inr p" by simp
    with placingInv_exit [OF Suc.prems(2) False] Suc.prems(3) show ?thesis by auto
  next
    case True
    from placingInv_body [OF Suc.prems(2) True, of k] obtain p'
      where b: "landscapeSetup_body (rnd k) p = Inr p'" and i: "placingInv rnd B C amount rvs0 p'"
      by blast
    from placingConsistent_body [OF Suc.prems(2,3) True, of k] b
    have c: "placingConsistent rvs0 p'"
      by simp
    from Suc.prems(1) True b have "landscapeSetup_upto n rnd (Suc k) p' = Some res"
      by simp
    from Suc.IH [OF this i c] show ?thesis .
  qed
qed

subsection \<open>The invariant of the data model and the orders\<close>

text \<open>
  Every operation of a run keeps the invariant of the data model: a rejected move changes
  the console only, an accepted move empties the square the rover leaves and fills the
  empty square it enters, and a turn touches no square and no position.
\<close>

lemma haveObstacle_None:
  assumes "haveObstacle m d = Inr None"
  shows "insideMap m d" and "squareAt m d = Some Empty"
  using assms
  by (auto simp: haveObstacle_def insideMap_def squareAt_def readSquare_def
      split: if_splits option.splits sum.splits)

lemma consistent_console [simp]:
  "consistent (st\<lparr>console := x\<rparr>) R = consistent st R"
  by (simp add: consistent_def)

lemma repositionRover_consistent:
  assumes con: "consistent st R" and r: "r \<in> R" and run: "repositionRover st r d = Inr st'"
  shows "consistent st' R"
  using run
proof (cases rule: repositionRover_cases)
  case (rejected w n)
  then show ?thesis using con by simp
next
  case (accepted cc lg m1 m2)
  note cD = consistentD [OF con]
  from cD(2) [OF r] accepted(2) have at_cc: "squareAt (marsMap st) cc = Some (RoverRef r)"
    by auto
  have at_d: "squareAt (marsMap st) d = Some Empty"
    by (rule haveObstacle_None(2) [OF accepted(1)])
  have ne: "d \<noteq> cc"
    using at_cc at_d by auto
  have sq1: "squareAt m1 c' = (if c' = cc then Some Empty else squareAt (marsMap st) c')" for c'
    using writeSquare_squareAt [OF accepted(4)] by blast
  have sq2: "squareAt m2 c' = (if c' = d then Some (RoverRef r) else squareAt m1 c')" for c'
    using writeSquare_squareAt [OF accepted(5)] by blast
  show ?thesis
  proof (rule consistentI)
    fix c r' assume a: "squareAt (marsMap st') c = Some (RoverRef r')"
    show "r' \<in> R \<and> currentCoords (rovers st' r') = Some c"
    proof (cases "c = d")
      case True
      with a show ?thesis using r by (simp add: accepted(6) sq2)
    next
      case False
      with a have old: "squareAt (marsMap st) c = Some (RoverRef r')" and "c \<noteq> cc"
        by (auto simp: accepted(6) sq2 sq1 split: if_splits)
      with at_cc cD(1) [OF old] accepted(2) have "r' \<noteq> r"
        by auto
      with cD(1) [OF old] show ?thesis by (simp add: accepted(6))
    qed
  next
    fix r' assume a: "r' \<in> R"
    show "\<exists>c. currentCoords (rovers st' r') = Some c \<and> squareAt (marsMap st') c = Some (RoverRef r')"
    proof (cases "r' = r")
      case True
      then show ?thesis by (simp add: accepted(6) sq2)
    next
      case False
      from cD(2) [OF a] obtain c where c: "currentCoords (rovers st r') = Some c"
        "squareAt (marsMap st) c = Some (RoverRef r')"
        by blast
      have "c \<noteq> d" using c(2) at_d by auto
      moreover have "c \<noteq> cc" using c(2) at_cc False by auto
      ultimately have "squareAt m2 c = Some (RoverRef r')"
        using c(2) by (simp add: sq2 sq1)
      with c(1) False show ?thesis by (simp add: accepted(6))
    qed
  qed
qed

lemma turn_consistent:
  assumes "consistent st R"
  shows "consistent (st\<lparr>rovers := (rovers st)(r := turnLeft (rovers st r))\<rparr>) R"
    and "consistent (st\<lparr>rovers := (rovers st)(r := turnRight (rovers st r))\<rparr>) R"
  using assms by (simp_all add: consistent_def)

lemma moveForward_consistent:
  assumes "consistent st R" and "r \<in> R" and "moveForward st r = Inr st'"
  shows "consistent st' R"
proof (cases "currentCoords (rovers st r)")
  case None
  with assms(3) show ?thesis by (simp add: moveForward_def)
next
  case (Some cc)
  with assms(3) have "repositionRover st r (forwardDestination cc (direction (rovers st r))) = Inr st'"
    by (simp add: moveForward_def)
  then show ?thesis by (rule repositionRover_consistent [OF assms(1,2)])
qed

lemma moveBackwards_consistent:
  assumes "consistent st R" and "r \<in> R" and "moveBackwards st r = Inr st'"
  shows "consistent st' R"
proof (cases "currentCoords (rovers st r)")
  case None
  with assms(3) show ?thesis by (simp add: moveBackwards_def)
next
  case (Some cc)
  with assms(3) have "repositionRover st r (backwardDestination cc (direction (rovers st r))) = Inr st'"
    by (simp add: moveBackwards_def)
  then show ?thesis by (rule repositionRover_consistent [OF assms(1,2)])
qed

lemma executeOrder_consistent:
  assumes "consistent st R" and "fst ord \<in> R" and "executeOrder st ord = Inr st'"
  shows "consistent st' R"
proof -
  consider "snd ord = ''l''" | "snd ord = ''r''" | "snd ord = ''f''" | "snd ord = ''b''"
    | "snd ord \<notin> {''l'', ''r'', ''f'', ''b''}"
    by blast
  then show ?thesis
  proof cases
    case 1
    with assms(3) have "st' = st\<lparr>rovers := (rovers st)(fst ord := turnLeft (rovers st (fst ord)))\<rparr>"
      by (simp add: executeOrder_def)
    then show ?thesis using turn_consistent(1) [OF assms(1)] by simp
  next
    case 2
    with assms(3) have "st' = st\<lparr>rovers := (rovers st)(fst ord := turnRight (rovers st (fst ord)))\<rparr>"
      by (simp add: executeOrder_def)
    then show ?thesis using turn_consistent(2) [OF assms(1)] by simp
  next
    case 3
    with assms(3) have "moveForward st (fst ord) = Inr st'"
      by (simp add: executeOrder_def)
    then show ?thesis by (rule moveForward_consistent [OF assms(1,2)])
  next
    case 4
    with assms(3) have "moveBackwards st (fst ord) = Inr st'"
      by (simp add: executeOrder_def)
    then show ?thesis by (rule moveBackwards_consistent [OF assms(1,2)])
  next
    case 5
    with assms(3) have "st' = st"
      by (simp add: executeOrder_def)
    then show ?thesis using assms(1) by simp
  qed
qed

lemma executeOrders_consistent:
  assumes "consistent st R" and "\<forall>ord\<in>set orders. fst ord \<in> R"
    and "executeOrders st orders = Inr st'"
  shows "consistent st' R"
  using assms
proof (induction orders arbitrary: st)
  case Nil
  then show ?case by simp
next
  case (Cons ord orders)
  from Cons.prems(3) obtain st1 where one: "executeOrder st ord = Inr st1"
    and rest: "executeOrders st1 orders = Inr st'"
    by (auto split: sum.splits)
  have "consistent st1 R"
    using executeOrder_consistent [OF Cons.prems(1) _ one] Cons.prems(2) by simp
  from Cons.IH [OF this _ rest] Cons.prems(2) show ?case by simp
qed

lemma chain_rovers:
  assumes "chainList cl = Inr (orders, cl')"
  shows "fst ` set orders \<subseteq> rover ` set cl" and "set cl' = set cl"
proof -
  have cl': "cl' = sortByLength cl"
    using assms by (auto simp: chainList_def Let_def split: list.splits)
  have "fst ` set (chainColumns n ps) \<subseteq> rover ` set ps" for n ps
    by (induction n) (auto simp: chainRows_eq)
  moreover from assms obtain n where "orders = chainColumns n cl'"
    by (auto simp: chainList_def Let_def split: list.splits)
  ultimately have "fst ` set orders \<subseteq> rover ` set cl'"
    by blast
  then show "fst ` set orders \<subseteq> rover ` set cl" "set cl' = set cl"
    by (simp_all add: cl' sortByLength_props(2))
qed

lemma showTravels_consistent:
  assumes "showTravels st ps = Inr st'"
  shows "consistent st' R = consistent st R"
  using showTravels_result [OF assms] by auto

lemma commandRovers_consistent:
  assumes "consistent st R" and "\<forall>p\<in>set cl. rover p \<in> R"
    and "commandRovers st cl = Inr (st', cl')"
  shows "consistent st' R"
proof (cases "hasInvalidCommands cl")
  case (Some r)
  with assms(3) obtain n where "st' = st\<lparr>console := console st @
      [Warning n ''has wrong commands. Only l,r,f,b are valid commands'']\<rparr>"
    by (auto simp: commandRovers_def issueWarning_def split: sum.splits)
  then show ?thesis using assms(1) by simp
next
  case None
  from commandRovers_accepts [OF None assms(3)] obtain orders st1
    where c: "chainList cl = Inr (orders, cl')"
      and e: "executeOrders st orders = Inr st1"
      and t: "showTravels st1 cl' = Inr st'"
    by blast
  have "\<forall>ord\<in>set orders. fst ord \<in> R"
    using chain_rovers(1) [OF c] assms(2) by auto
  from executeOrders_consistent [OF assms(1) this e] showTravels_consistent [OF t]
  show ?thesis by simp
qed

lemma consistent_one_rover_per_square:
  assumes "consistent st R" and "r1 \<in> R" and "r2 \<in> R"
    and "currentCoords (rovers st r1) = currentCoords (rovers st r2)"
  shows "r1 = r2"
  using consistentD(2) [OF assms(1,2)] consistentD(2) [OF assms(1,3)] assms(4) by auto

subsection \<open>The loop and its cut-offs in \<^verbatim>\<open>part_000\<close>\<close>

text \<open>
  The lemmas of the subsection of the same name, for \<^verbatim>\<open>part_000\<close>, where the square
  of a pair is \<^verbatim>\<open>map.squares[y][x]\<close>.
\<close>

lemma upto_returns_p0:
  "landscapeSetup_upto_p0 n rnd k p = Some r \<Longrightarrow> landscapeSetup_loop_p0 rnd k p = Some r"
proof (induction n arbitrary: k p)
  case 0
  then show ?case
    by (subst landscapeSetup_loop_p0.simps) (simp split: if_splits)
next
  case (Suc n)
  show ?case
  proof (cases "snd (snd (snd p)) > 0")
    case False
    with Suc.prems show ?thesis
      by (subst landscapeSetup_loop_p0.simps) simp
  next
    case True
    show ?thesis
    proof (cases "landscapeSetup_body_p0 (rnd k) p")
      case (Inl e)
      with True Suc.prems show ?thesis
        by (subst landscapeSetup_loop_p0.simps) auto
    next
      case (Inr p')
      with True Suc.prems have "landscapeSetup_upto_p0 n rnd (Suc k) p' = Some r"
        by simp
      from Suc.IH [OF this] True Inr show ?thesis
        by (subst landscapeSetup_loop_p0.simps) simp
    qed
  qed
qed

lemma loop_returns_p0:
  assumes "landscapeSetup_loop_p0 rnd k p = Some r"
  shows "\<exists>n. landscapeSetup_upto_p0 n rnd k p = Some r"
proof (rule landscapeSetup_loop_p0.raw_induct
    [where P = "\<lambda>rnd k p r. \<exists>n. landscapeSetup_upto_p0 n rnd k p = Some r", OF _ assms])
  fix loop :: "(nat \<Rightarrow> coords) \<Rightarrow> nat \<Rightarrow> coords placing \<Rightarrow> (error + coords placing) option"
  fix rnd k p r
  assume IH: "\<And>rnd k p r. loop rnd k p = Some r \<Longrightarrow> \<exists>n. landscapeSetup_upto_p0 n rnd k p = Some r"
    and eq: "(if 0 < snd (snd (snd p))
              then case landscapeSetup_body_p0 (rnd k) p of Inl e \<Rightarrow> Some (Inl e)
                   | Inr p' \<Rightarrow> loop rnd (Suc k) p'
              else Some (Inr p)) = Some r"
  show "\<exists>n. landscapeSetup_upto_p0 n rnd k p = Some r"
  proof (cases "snd (snd (snd p)) > 0")
    case False
    with eq have "landscapeSetup_upto_p0 0 rnd k p = Some r"
      by simp
    then show ?thesis ..
  next
    case True
    show ?thesis
    proof (cases "landscapeSetup_body_p0 (rnd k) p")
      case (Inl e)
      with True eq have "landscapeSetup_upto_p0 (Suc 0) rnd k p = Some r"
        by auto
      then show ?thesis ..
    next
      case (Inr p')
      with True eq have "loop rnd (Suc k) p' = Some r"
        by simp
      from IH [OF this] obtain n where "landscapeSetup_upto_p0 n rnd (Suc k) p' = Some r"
        by blast
      with True Inr have "landscapeSetup_upto_p0 (Suc n) rnd k p = Some r"
        by simp
      then show ?thesis ..
    qed
  qed
qed

lemma loop_iff_upto_p0:
  "landscapeSetup_loop_p0 rnd k p = Some r \<longleftrightarrow> (\<exists>n. landscapeSetup_upto_p0 n rnd k p = Some r)"
  using upto_returns_p0 loop_returns_p0 by blast

lemma loop_None_iff_p0:
  "landscapeSetup_loop_p0 rnd k p = None \<longleftrightarrow> (\<forall>n. landscapeSetup_upto_p0 n rnd k p = None)"
  using loop_iff_upto_p0 [of rnd k p] by (metis not_Some_eq)


subsection \<open>Squares read and written in \<^verbatim>\<open>part_000\<close>\<close>

text \<open>
  The lemmas of the subsection of the same name, for \<^verbatim>\<open>part_000\<close>, where the square
  of a pair is \<^verbatim>\<open>map.squares[y][x]\<close>.
\<close>

lemma squareAt_read_p0:
  "squareAt_p0 m c = Some v \<Longrightarrow> readSquare m (snd c) (fst c) = Inr (Some v)"
  by (auto simp: squareAt_p0_def readSquare_def split: option.splits)

lemma squareAt_write_p0:
  assumes "squareAt_p0 m c = Some v0"
  shows "\<exists>m'. writeSquare m (snd c) (fst c) v = Inr m' \<and> boundaries m' = boundaries m \<and>
           (\<forall>c'. squareAt_p0 m' c' = (if c' = c then Some v else squareAt_p0 m c'))"
proof -
  from assms obtain row where row: "squares m (snd c) = Some row"
    by (auto simp: squareAt_p0_def split: option.splits)
  let ?m' = "m\<lparr>squares := (squares m)(snd c \<mapsto> row(fst c \<mapsto> v))\<rparr>"
  have "writeSquare m (snd c) (fst c) v = Inr ?m'"
    by (simp add: writeSquare_def row)
  moreover have "squareAt_p0 ?m' c' = (if c' = c then Some v else squareAt_p0 m c')" for c'
    using row by (cases c; cases c') (auto simp: squareAt_p0_def)
  ultimately show ?thesis by simp
qed

lemma writeSquare_squareAt_p0:
  assumes "writeSquare m (snd c) (fst c) v = Inr m'"
  shows "boundaries m' = boundaries m \<and>
         (\<forall>c'. squareAt_p0 m' c' = (if c' = c then Some v else squareAt_p0 m c'))"
proof -
  from assms obtain row where row: "squares m (snd c) = Some row"
    and m': "m' = m\<lparr>squares := (squares m)(snd c \<mapsto> row(fst c \<mapsto> v))\<rparr>"
    by (auto simp: writeSquare_def split: option.splits)
  have "squareAt_p0 m' c' = (if c' = c then Some v else squareAt_p0 m c')" for c'
    using row m' by (cases c; cases c') (auto simp: squareAt_p0_def)
  then show ?thesis using m' by simp
qed

lemma insideMap_boundaries_p0:
  "boundaries m' = boundaries m \<Longrightarrow> insideMap_p0 m' c = insideMap_p0 m c"
  by (simp add: insideMap_p0_def)

lemma rectangularD_p0:
  assumes "rectangular_p0 m"
  shows "(squareAt_p0 m c \<noteq> None) = insideMap_p0 m c"
    and "top_bound (boundaries m) = - 1" and "left (boundaries m) = - 1"
  using assms unfolding rectangular_p0_def by blast+

lemma rectangularI_p0:
  assumes "\<And>c. (squareAt_p0 m c \<noteq> None) = insideMap_p0 m c"
    and "top_bound (boundaries m) = - 1" and "left (boundaries m) = - 1"
  shows "rectangular_p0 m"
  using assms unfolding rectangular_p0_def by blast

lemma rectangular_write_p0:
  assumes "rectangular_p0 m" and "squareAt_p0 m c \<noteq> None" and "boundaries m' = boundaries m"
    and "\<forall>c'. squareAt_p0 m' c' = (if c' = c then Some v else squareAt_p0 m c')"
  shows "rectangular_p0 m'"
proof (rule rectangularI_p0)
  have sq: "squareAt_p0 m' c' = (if c' = c then Some v else squareAt_p0 m c')" for c'
    using assms(4) by blast
  have in_c: "insideMap_p0 m c"
    using assms(2) rectangularD_p0(1) [OF assms(1)] by blast
  show "(squareAt_p0 m' c' \<noteq> None) = insideMap_p0 m' c'" for c'
  proof (cases "c' = c")
    case True
    then show ?thesis
      using in_c by (simp add: sq insideMap_boundaries_p0 [OF assms(3)])
  next
    case False
    then show ?thesis
      using rectangularD_p0(1) [OF assms(1)] by (simp add: sq insideMap_boundaries_p0 [OF assms(3)])
  qed
  show "top_bound (boundaries m') = - 1" "left (boundaries m') = - 1"
    using rectangularD_p0(2,3) [OF assms(1)] assms(3) by simp_all
qed

lemma occupiedCells_write_p0:
  assumes "\<forall>c'. squareAt_p0 m' c' = (if c' = c then Some v else squareAt_p0 m c')"
  shows "occupiedCells_p0 m' = (if v = Empty then occupiedCells_p0 m - {c} else insert c (occupiedCells_p0 m))"
proof -
  have sq: "squareAt_p0 m' c' = (if c' = c then Some v else squareAt_p0 m c')" for c'
    using assms by blast
  have "c' \<in> occupiedCells_p0 m' \<longleftrightarrow>
      c' \<in> (if v = Empty then occupiedCells_p0 m - {c} else insert c (occupiedCells_p0 m))" for c'
    by (cases "c' = c") (simp_all add: occupiedCells_p0_def sq)
  then show ?thesis by blast
qed

lemma inside_finite_p0: "finite {c. insideMap_p0 m c}"
proof -
  have "{c. insideMap_p0 m c} \<subseteq>
      {left (boundaries m)..right (boundaries m)} \<times> {top_bound (boundaries m)..down (boundaries m)}"
    by (auto simp: insideMap_p0_def)
  then show ?thesis
    by (rule finite_subset) simp
qed

lemma occupied_inside_p0:
  assumes "rectangular_p0 m"
  shows "occupiedCells_p0 m \<subseteq> {c. insideMap_p0 m c}"
proof
  fix c assume "c \<in> occupiedCells_p0 m"
  then have "squareAt_p0 m c \<noteq> None"
    by (auto simp: occupiedCells_p0_def)
  then show "c \<in> {c. insideMap_p0 m c}"
    using rectangularD_p0(1) [OF assms] by blast
qed

lemma occupied_finite_p0: "rectangular_p0 m \<Longrightarrow> finite (occupiedCells_p0 m)"
  using occupied_inside_p0 inside_finite_p0 by (metis finite_subset)

lemma generateMap_squareAt_p0:
  assumes "generateEmptyMap_p0 xSize ySize = Some m"
  shows "squareAt_p0 m c = (if insideMap_p0 m c then Some Empty else None)"
    and "boundaries m = \<lparr>left = - 1, right = xSize, top_bound = - 1, down = ySize\<rparr>"
    and "0 < xSize" and "0 < ySize"
  using assms
  by (auto simp: generateEmptyMap_p0_def squareAt_p0_def insideMap_p0_def fillSquares_apply fillRow_apply
      split: if_splits)

lemma generateMap_rectangular_p0:
  assumes "generateEmptyMap_p0 xSize ySize = Some m"
  shows "rectangular_p0 m" and "occupiedCells_p0 m = {}"
proof -
  note g = generateMap_squareAt_p0 [OF assms]
  show "rectangular_p0 m"
    by (rule rectangularI_p0) (simp_all add: g)
  show "occupiedCells_p0 m = {}"
    by (auto simp: occupiedCells_p0_def g(1) split: if_splits)
qed


subsection \<open>One iteration of the placement loop in \<^verbatim>\<open>part_000\<close>\<close>

text \<open>
  The lemmas of the subsection of the same name, for \<^verbatim>\<open>part_000\<close>, where the square
  of a pair is \<^verbatim>\<open>map.squares[y][x]\<close>.
\<close>

lemma body_step_p0:
  assumes "rectangular_p0 (marsMap st)" and "insideMap_p0 (marsMap st) c"
    and "0 \<le> numObst" and "deploys = numObst + int (length rvs)" and "0 < deploys"
  obtains (miss) v where "squareAt_p0 (marsMap st) c = Some v" and "v \<noteq> Empty"
      and "landscapeSetup_body_p0 c (st, numObst, rvs, deploys) = Inr (st, numObst, rvs, deploys)"
    | (rock) m' where "squareAt_p0 (marsMap st) c = Some Empty" and "0 < numObst"
      and "boundaries m' = boundaries (marsMap st)"
      and "\<forall>c'. squareAt_p0 m' c' = (if c' = c then Some Obstacle else squareAt_p0 (marsMap st) c')"
      and "landscapeSetup_body_p0 c (st, numObst, rvs, deploys) =
             Inr (st\<lparr>marsMap := m'\<rparr>, numObst - 1, rvs, deploys - 1)"
    | (rover) m' where "squareAt_p0 (marsMap st) c = Some Empty" and "numObst = 0" and "rvs \<noteq> []"
      and "boundaries m' = boundaries (marsMap st)"
      and "\<forall>c'. squareAt_p0 m' c' =
             (if c' = c then Some (RoverRef (last rvs)) else squareAt_p0 (marsMap st) c')"
      and "landscapeSetup_body_p0 c (st, numObst, rvs, deploys) =
             Inr (st\<lparr>marsMap := m',
                     rovers := (rovers st)
                       (last rvs := (rovers st (last rvs))
                          \<lparr>currentCoords := Some c, travelLog := Some [c]\<rparr>)\<rparr>,
                  numObst, butlast rvs, deploys - 1)"
proof -
  from assms(1,2) obtain v where v: "squareAt_p0 (marsMap st) c = Some v"
    using rectangularD_p0(1) by blast
  note rd = squareAt_read_p0 [OF v]
  show thesis
  proof (cases "v = Empty")
    case False
    then have "landscapeSetup_body_p0 c (st, numObst, rvs, deploys) = Inr (st, numObst, rvs, deploys)"
      by (simp add: landscapeSetup_body_p0_def rd)
    with v False show thesis by (rule miss)
  next
    case True
    show thesis
    proof (cases "0 < numObst")
      case True
      from squareAt_write_p0 [OF v, of Obstacle] obtain m'
        where w: "writeSquare (marsMap st) (snd c) (fst c) Obstacle = Inr m'"
          and b: "boundaries m' = boundaries (marsMap st)"
          and sq: "\<forall>c'. squareAt_p0 m' c' = (if c' = c then Some Obstacle else squareAt_p0 (marsMap st) c')"
        by blast
      have "landscapeSetup_body_p0 c (st, numObst, rvs, deploys) =
             Inr (st\<lparr>marsMap := m'\<rparr>, numObst - 1, rvs, deploys - 1)"
        using \<open>v = Empty\<close> True by (simp add: landscapeSetup_body_p0_def rd w)
      with v \<open>v = Empty\<close> True b sq show thesis by (auto intro: rock)
    next
      case False
      then have n0: "numObst = 0" using assms(3) by simp
      then have ne: "rvs \<noteq> []" using assms(4,5) by auto
      from squareAt_write_p0 [OF v, of "RoverRef (last rvs)"] obtain m'
        where w: "writeSquare (marsMap st) (snd c) (fst c) (RoverRef (last rvs)) = Inr m'"
          and b: "boundaries m' = boundaries (marsMap st)"
          and sq: "\<forall>c'. squareAt_p0 m' c' =
             (if c' = c then Some (RoverRef (last rvs)) else squareAt_p0 (marsMap st) c')"
        by blast
      have "landscapeSetup_body_p0 c (st, numObst, rvs, deploys) =
             Inr (st\<lparr>marsMap := m',
                     rovers := (rovers st)
                       (last rvs := (rovers st (last rvs))
                          \<lparr>currentCoords := Some c, travelLog := Some [c]\<rparr>)\<rparr>,
                  numObst, butlast rvs, deploys - 1)"
        using \<open>v = Empty\<close> n0 by (simp add: landscapeSetup_body_p0_def rd w case_nonempty [OF ne])
      with v \<open>v = Empty\<close> n0 ne b sq show thesis by (auto intro: rover)
    qed
  qed
qed


subsection \<open>Invariants of the placement loop in \<^verbatim>\<open>part_000\<close>\<close>

text \<open>
  The lemmas of the subsection of the same name, for \<^verbatim>\<open>part_000\<close>, where the square
  of a pair is \<^verbatim>\<open>map.squares[y][x]\<close>.
\<close>

lemma placingInvI_p0:
  assumes "rectangular_p0 (marsMap st)" and "boundaries (marsMap st) = B" and "console st = C"
    and "\<And>k. insideMap_p0 (marsMap st) (rnd k)"
    and "0 \<le> numObst" and "deploys = numObst + int (length rvs)"
    and "int (card (occupiedCells_p0 (marsMap st))) + deploys = amount"
    and "\<And>r. r \<in> set rvs0 \<Longrightarrow> r \<in> set rvs \<or>
           (\<exists>c. currentCoords (rovers st r) = Some c \<and>
                travelLog (rovers st r) = Some [c] \<and>
                squareAt_p0 (marsMap st) c = Some (RoverRef r))"
  shows "placingInv_p0 rnd B C amount rvs0 (st, numObst, rvs, deploys)"
  unfolding placingInv_p0_def prod.case using assms by blast

lemma placingInvD_p0:
  assumes "placingInv_p0 rnd B C amount rvs0 (st, numObst, rvs, deploys)"
  shows "rectangular_p0 (marsMap st)" and "boundaries (marsMap st) = B" and "console st = C"
    and "\<And>k. insideMap_p0 (marsMap st) (rnd k)"
    and "0 \<le> numObst" and "deploys = numObst + int (length rvs)"
    and "int (card (occupiedCells_p0 (marsMap st))) + deploys = amount"
    and "\<And>r. r \<in> set rvs0 \<Longrightarrow> r \<in> set rvs \<or>
           (\<exists>c. currentCoords (rovers st r) = Some c \<and>
                travelLog (rovers st r) = Some [c] \<and>
                squareAt_p0 (marsMap st) c = Some (RoverRef r))"
  using assms unfolding placingInv_p0_def prod.case by blast+

lemma placingInv_body_p0:
  assumes inv: "placingInv_p0 rnd B C amount rvs0 p" and pos: "0 < snd (snd (snd p))"
  shows "\<exists>p'. landscapeSetup_body_p0 (rnd k) p = Inr p' \<and> placingInv_p0 rnd B C amount rvs0 p'"
proof -
  obtain st numObst rvs deploys where p: "p = (st, numObst, rvs, deploys)"
    by (cases p) auto
  note D = placingInvD_p0 [OF inv [unfolded p]]
  note rect = D(1) and B = D(2) and C = D(3) and ins = D(4) and n0 = D(5) and d = D(6)
    and tot = D(7) and pl = D(8)
  from pos have dpos: "0 < deploys" by (simp add: p)
  let ?c = "rnd k"
  from rect ins [of k] n0 d dpos show ?thesis
  proof (cases rule: body_step_p0 [where c = ?c and st = st and rvs = rvs])
    case (miss v)
    then show ?thesis using inv by (simp add: p)
  next
    case (rock m')
    have sq: "squareAt_p0 m' c' = (if c' = ?c then Some Obstacle else squareAt_p0 (marsMap st) c')" for c'
      using rock(4) by blast
    have ex: "squareAt_p0 (marsMap st) ?c \<noteq> None"
      using rock(1) by simp
    have r': "rectangular_p0 m'"
      by (rule rectangular_write_p0 [OF rect ex rock(3,4)])
    have notin: "?c \<notin> occupiedCells_p0 (marsMap st)"
      using rock(1) by (simp add: occupiedCells_p0_def)
    have occ: "occupiedCells_p0 m' = insert ?c (occupiedCells_p0 (marsMap st))"
      using occupiedCells_write_p0 [OF rock(4)] by simp
    have card: "card (occupiedCells_p0 m') = Suc (card (occupiedCells_p0 (marsMap st)))"
      using notin occupied_finite_p0 [OF rect] by (simp add: occ)
    have "placingInv_p0 rnd B C amount rvs0 (st\<lparr>marsMap := m'\<rparr>, numObst - 1, rvs, deploys - 1)"
    proof (rule placingInvI_p0)
      show "rectangular_p0 (marsMap (st\<lparr>marsMap := m'\<rparr>))" using r' by simp
      show "boundaries (marsMap (st\<lparr>marsMap := m'\<rparr>)) = B" using rock(3) B by simp
      show "console (st\<lparr>marsMap := m'\<rparr>) = C" using C by simp
      show "insideMap_p0 (marsMap (st\<lparr>marsMap := m'\<rparr>)) (rnd k)" for k
        using ins [of k] by (simp add: insideMap_boundaries_p0 [OF rock(3)])
      show "0 \<le> numObst - 1" using rock(2) by simp
      show "deploys - 1 = numObst - 1 + int (length rvs)" using d by simp
      show "int (card (occupiedCells_p0 (marsMap (st\<lparr>marsMap := m'\<rparr>)))) + (deploys - 1) = amount"
        using tot by (simp add: card)
      show "r \<in> set rvs \<or>
           (\<exists>c. currentCoords (rovers (st\<lparr>marsMap := m'\<rparr>) r) = Some c \<and>
                travelLog (rovers (st\<lparr>marsMap := m'\<rparr>) r) = Some [c] \<and>
                squareAt_p0 (marsMap (st\<lparr>marsMap := m'\<rparr>)) c = Some (RoverRef r))"
        if "r \<in> set rvs0" for r
      proof (rule disjE [OF pl [OF that]])
        assume "r \<in> set rvs"
        then show ?thesis ..
      next
        assume "\<exists>c. currentCoords (rovers st r) = Some c \<and>
                travelLog (rovers st r) = Some [c] \<and>
                squareAt_p0 (marsMap st) c = Some (RoverRef r)"
        then obtain c where c: "currentCoords (rovers st r) = Some c"
          "travelLog (rovers st r) = Some [c]"
          "squareAt_p0 (marsMap st) c = Some (RoverRef r)"
          by blast
        then have "c \<noteq> ?c" using rock(1) by auto
        then have "squareAt_p0 m' c = Some (RoverRef r)" using c(3) by (simp add: sq)
        with c(1,2) show ?thesis by simp
      qed
    qed
    then show ?thesis using rock(5) by (simp add: p)
  next
    case (rover m')
    let ?r = "last rvs"
    let ?st' = "st\<lparr>marsMap := m',
                     rovers := (rovers st)
                       (?r := (rovers st ?r)
                          \<lparr>currentCoords := Some ?c, travelLog := Some [?c]\<rparr>)\<rparr>"
    have sq: "squareAt_p0 m' c' = (if c' = ?c then Some (RoverRef ?r) else squareAt_p0 (marsMap st) c')" for c'
      using rover(5) by blast
    have ex: "squareAt_p0 (marsMap st) ?c \<noteq> None"
      using rover(1) by simp
    have r': "rectangular_p0 m'"
      by (rule rectangular_write_p0 [OF rect ex rover(4,5)])
    have notin: "?c \<notin> occupiedCells_p0 (marsMap st)"
      using rover(1) by (simp add: occupiedCells_p0_def)
    have occ: "occupiedCells_p0 m' = insert ?c (occupiedCells_p0 (marsMap st))"
      using occupiedCells_write_p0 [OF rover(5)] by simp
    have card: "card (occupiedCells_p0 m') = Suc (card (occupiedCells_p0 (marsMap st)))"
      using notin occupied_finite_p0 [OF rect] by (simp add: occ)
    have len: "int (length (butlast rvs)) = int (length rvs) - 1"
      using rover(3) by (simp add: of_nat_diff Suc_leI)
    have "placingInv_p0 rnd B C amount rvs0 (?st', numObst, butlast rvs, deploys - 1)"
    proof (rule placingInvI_p0)
      show "rectangular_p0 (marsMap ?st')" using r' by simp
      show "boundaries (marsMap ?st') = B" using rover(4) B by simp
      show "console ?st' = C" using C by simp
      show "insideMap_p0 (marsMap ?st') (rnd k)" for k
        using ins [of k] by (simp add: insideMap_boundaries_p0 [OF rover(4)])
      show "0 \<le> numObst" by (rule n0)
      show "deploys - 1 = numObst + int (length (butlast rvs))" using d len by simp
      show "int (card (occupiedCells_p0 (marsMap ?st'))) + (deploys - 1) = amount"
        using tot by (simp add: card)
      show "r \<in> set (butlast rvs) \<or>
           (\<exists>c. currentCoords (rovers ?st' r) = Some c \<and>
                travelLog (rovers ?st' r) = Some [c] \<and>
                squareAt_p0 (marsMap ?st') c = Some (RoverRef r))"
        if "r \<in> set rvs0" for r
      proof (cases "r = ?r")
        case True
        then show ?thesis by (simp add: sq)
      next
        case False
        show ?thesis
        proof (rule disjE [OF pl [OF that]])
          assume "r \<in> set rvs"
          then have "r \<in> set (butlast rvs @ [?r])"
            using rover(3) by simp
          then show ?thesis using False by simp
        next
          assume "\<exists>c. currentCoords (rovers st r) = Some c \<and>
                travelLog (rovers st r) = Some [c] \<and>
                squareAt_p0 (marsMap st) c = Some (RoverRef r)"
          then obtain c where c: "currentCoords (rovers st r) = Some c"
            "travelLog (rovers st r) = Some [c]"
            "squareAt_p0 (marsMap st) c = Some (RoverRef r)"
            by blast
          then have "c \<noteq> ?c" using rover(1) by auto
          then have "squareAt_p0 m' c = Some (RoverRef r)" using c(3) by (simp add: sq)
          with c(1,2) False show ?thesis by simp
        qed
      qed
    qed
    then show ?thesis using rover(6) by (simp add: p)
  qed
qed

lemma placingInv_exit_p0:
  assumes "placingInv_p0 rnd B C amount rvs0 p" and "\<not> 0 < snd (snd (snd p))"
  shows "\<exists>st. p = (st, 0, [], 0)"
proof -
  obtain st numObst rvs deploys where p: "p = (st, numObst, rvs, deploys)"
    by (cases p) auto
  note D = placingInvD_p0 [OF assms(1) [unfolded p]]
  from assms(2) have "deploys \<le> 0" by (simp add: p)
  with D(5,6) have "numObst = 0" and "length rvs = 0" and "deploys = 0"
    by linarith+
  then show ?thesis by (simp add: p)
qed

lemma upto_placingInv_p0:
  assumes "landscapeSetup_upto_p0 n rnd k p = Some res" and "placingInv_p0 rnd B C amount rvs0 p"
  shows "\<exists>st. res = Inr (st, 0, [], 0) \<and> placingInv_p0 rnd B C amount rvs0 (st, 0, [], 0)"
  using assms
proof (induction n arbitrary: k p)
  case 0
  then have "\<not> 0 < snd (snd (snd p))" and "res = Inr p"
    by (auto split: if_splits)
  with placingInv_exit_p0 [OF 0(2)] 0(2) show ?case by auto
next
  case (Suc n)
  show ?case
  proof (cases "0 < snd (snd (snd p))")
    case False
    with Suc.prems(1) have "res = Inr p" by simp
    with placingInv_exit_p0 [OF Suc.prems(2) False] Suc.prems(2) show ?thesis by auto
  next
    case True
    from placingInv_body_p0 [OF Suc.prems(2) True, of k] obtain p'
      where b: "landscapeSetup_body_p0 (rnd k) p = Inr p'" and i: "placingInv_p0 rnd B C amount rvs0 p'"
      by blast
    from Suc.prems(1) True b have "landscapeSetup_upto_p0 n rnd (Suc k) p' = Some res"
      by simp
    from Suc.IH [OF this i] show ?thesis .
  qed
qed


subsection \<open>When the placement loop returns in \<^verbatim>\<open>part_000\<close>\<close>

text \<open>
  The lemmas of the subsection of the same name, for \<^verbatim>\<open>part_000\<close>, where the square
  of a pair is \<^verbatim>\<open>map.squares[y][x]\<close>.
\<close>

lemma placingInv_progress_p0:
  assumes inv: "placingInv_p0 rnd B C amount rvs0 p" and pos: "0 < snd (snd (snd p))"
  shows "\<exists>p'. landscapeSetup_body_p0 (rnd k) p = Inr p' \<and>
           ((p' = p \<and> rnd k \<in> occupiedCells_p0 (marsMap (fst p))) \<or>
            (rnd k \<notin> occupiedCells_p0 (marsMap (fst p)) \<and>
             occupiedCells_p0 (marsMap (fst p')) = insert (rnd k) (occupiedCells_p0 (marsMap (fst p))) \<and>
             snd (snd (snd p')) = snd (snd (snd p)) - 1))"
proof -
  obtain st numObst rvs deploys where p: "p = (st, numObst, rvs, deploys)"
    by (cases p) auto
  note D = placingInvD_p0 [OF inv [unfolded p]]
  from pos have dpos: "0 < deploys" by (simp add: p)
  let ?c = "rnd k"
  from D(1) D(4) [of k] D(5,6) dpos show ?thesis
  proof (cases rule: body_step_p0 [where c = ?c and st = st and rvs = rvs])
    case (miss v)
    then have "?c \<in> occupiedCells_p0 (marsMap st)"
      by (simp add: occupiedCells_p0_def)
    with miss(3) show ?thesis by (simp add: p)
  next
    case (rock m')
    have "?c \<notin> occupiedCells_p0 (marsMap st)"
      using rock(1) by (simp add: occupiedCells_p0_def)
    moreover have "occupiedCells_p0 m' = insert ?c (occupiedCells_p0 (marsMap st))"
      using occupiedCells_write_p0 [OF rock(4)] by simp
    ultimately show ?thesis using rock(5) by (simp add: p)
  next
    case (rover m')
    have "?c \<notin> occupiedCells_p0 (marsMap st)"
      using rover(1) by (simp add: occupiedCells_p0_def)
    moreover have "occupiedCells_p0 m' = insert ?c (occupiedCells_p0 (marsMap st))"
      using occupiedCells_write_p0 [OF rover(5)] by simp
    ultimately show ?thesis using rover(6) by (simp add: p)
  qed
qed

lemma enough_samples_return_p0:
  assumes "placingInv_p0 rnd B C amount rvs0 p"
    and "nat (snd (snd (snd p))) \<le> card (rnd ` {k..<k + n} - occupiedCells_p0 (marsMap (fst p)))"
  shows "\<exists>res. landscapeSetup_upto_p0 n rnd k p = Some res"
  using assms
proof (induction n arbitrary: k p)
  case 0
  then show ?case by simp
next
  case (Suc n)
  show ?case
  proof (cases "0 < snd (snd (snd p))")
    case False
    then show ?thesis by simp
  next
    case True
    let ?O = "occupiedCells_p0 (marsMap (fst p))"
    let ?S = "rnd ` {k..<k + Suc n} - ?O"
    from placingInv_body_p0 [OF Suc.prems(1) True, of k] obtain p'
      where b: "landscapeSetup_body_p0 (rnd k) p = Inr p'" and i: "placingInv_p0 rnd B C amount rvs0 p'"
      by blast
    from placingInv_progress_p0 [OF Suc.prems(1) True, of k] b
    consider (miss) "p' = p" "rnd k \<in> ?O"
      | (hit) "rnd k \<notin> ?O" "occupiedCells_p0 (marsMap (fst p')) = insert (rnd k) ?O"
          "snd (snd (snd p')) = snd (snd (snd p)) - 1"
      by auto
    then have "nat (snd (snd (snd p'))) \<le>
        card (rnd ` {Suc k..<Suc k + n} - occupiedCells_p0 (marsMap (fst p')))"
    proof cases
      case miss
      then have "rnd ` {Suc k..<Suc k + n} - ?O = ?S"
        unfolding image_from by auto
      then show ?thesis using Suc.prems(2) miss(1) by simp
    next
      case hit
      have "rnd ` {Suc k..<Suc k + n} - insert (rnd k) ?O = ?S - {rnd k}"
        unfolding image_from by auto
      moreover have "card ?S - 1 \<le> card (?S - {rnd k})"
        by (simp add: card_Diff_singleton_if)
      ultimately show ?thesis using Suc.prems(2) hit(2,3) True by simp
    qed
    from Suc.IH [OF i this] b True show ?thesis by simp
  qed
qed

lemma return_needs_samples_p0:
  assumes "placingInv_p0 rnd B C amount rvs0 p" and "landscapeSetup_upto_p0 n rnd k p = Some res"
  shows "nat (snd (snd (snd p))) \<le> card (rnd ` {k..<k + n} - occupiedCells_p0 (marsMap (fst p)))"
  using assms
proof (induction n arbitrary: k p)
  case 0
  then show ?case by (simp split: if_splits)
next
  case (Suc n)
  show ?case
  proof (cases "0 < snd (snd (snd p))")
    case False
    then show ?thesis by simp
  next
    case True
    let ?O = "occupiedCells_p0 (marsMap (fst p))"
    let ?S = "rnd ` {k..<k + Suc n} - ?O"
    from placingInv_body_p0 [OF Suc.prems(1) True, of k] obtain p'
      where b: "landscapeSetup_body_p0 (rnd k) p = Inr p'" and i: "placingInv_p0 rnd B C amount rvs0 p'"
      by blast
    from Suc.prems(2) True b have run: "landscapeSetup_upto_p0 n rnd (Suc k) p' = Some res"
      by simp
    note IH = Suc.IH [OF i run]
    from placingInv_progress_p0 [OF Suc.prems(1) True, of k] b
    consider (miss) "p' = p" "rnd k \<in> ?O"
      | (hit) "rnd k \<notin> ?O" "occupiedCells_p0 (marsMap (fst p')) = insert (rnd k) ?O"
          "snd (snd (snd p')) = snd (snd (snd p)) - 1"
      by auto
    then show ?thesis
    proof cases
      case miss
      then have "rnd ` {Suc k..<Suc k + n} - ?O = ?S"
        unfolding image_from by auto
      then show ?thesis using IH miss(1) by simp
    next
      case hit
      have eq: "rnd ` {Suc k..<Suc k + n} - insert (rnd k) ?O = ?S - {rnd k}"
        unfolding image_from by auto
      have "rnd k \<in> ?S"
        using hit(1) unfolding image_from by simp
      moreover have "finite ?S"
        by simp
      ultimately have "card ?S = Suc (card (?S - {rnd k}))"
        by (metis card.remove)
      then show ?thesis using IH hit(2,3) eq True by simp
    qed
  qed
qed


subsection \<open>The invariant of the data model during placement in \<^verbatim>\<open>part_000\<close>\<close>

text \<open>
  The lemmas of the subsection of the same name, for \<^verbatim>\<open>part_000\<close>, where the square
  of a pair is \<^verbatim>\<open>map.squares[y][x]\<close>.
\<close>

lemma consistentI_p0:
  assumes "\<And>c r. squareAt_p0 (marsMap st) c = Some (RoverRef r) \<Longrightarrow>
             r \<in> R \<and> currentCoords (rovers st r) = Some c"
    and "\<And>r. r \<in> R \<Longrightarrow>
             \<exists>c. currentCoords (rovers st r) = Some c \<and> squareAt_p0 (marsMap st) c = Some (RoverRef r)"
  shows "consistent_p0 st R"
  unfolding consistent_p0_def using assms by blast

lemma consistentD_p0:
  assumes "consistent_p0 st R"
  shows "\<And>c r. squareAt_p0 (marsMap st) c = Some (RoverRef r) \<Longrightarrow>
             r \<in> R \<and> currentCoords (rovers st r) = Some c"
    and "\<And>r. r \<in> R \<Longrightarrow>
             \<exists>c. currentCoords (rovers st r) = Some c \<and> squareAt_p0 (marsMap st) c = Some (RoverRef r)"
  using assms unfolding consistent_p0_def by blast+

lemma placingConsistent_body_p0:
  assumes inv: "placingInv_p0 rnd B C amount rvs0 p" and cons: "placingConsistent_p0 rvs0 p"
    and pos: "0 < snd (snd (snd p))"
  shows "\<exists>p'. landscapeSetup_body_p0 (rnd k) p = Inr p' \<and> placingConsistent_p0 rvs0 p'"
proof -
  obtain st numObst rvs deploys where p: "p = (st, numObst, rvs, deploys)"
    by (cases p) auto
  note D = placingInvD_p0 [OF inv [unfolded p]]
  from cons have dist: "distinct rvs" and sub: "set rvs \<subseteq> set rvs0"
    and con: "consistent_p0 st (set rvs0 - set rvs)"
    unfolding placingConsistent_p0_def p by simp_all
  note cD = consistentD_p0 [OF con]
  from pos have dpos: "0 < deploys" by (simp add: p)
  let ?c = "rnd k"
  from D(1) D(4) [of k] D(5,6) dpos show ?thesis
  proof (cases rule: body_step_p0 [where c = ?c and st = st and rvs = rvs])
    case (miss v)
    then show ?thesis using cons by (simp add: p)
  next
    case (rock m')
    have sq: "squareAt_p0 m' c' = (if c' = ?c then Some Obstacle else squareAt_p0 (marsMap st) c')" for c'
      using rock(4) by blast
    have "consistent_p0 (st\<lparr>marsMap := m'\<rparr>) (set rvs0 - set rvs)"
    proof (rule consistentI_p0)
      fix c r assume "squareAt_p0 (marsMap (st\<lparr>marsMap := m'\<rparr>)) c = Some (RoverRef r)"
      then have "squareAt_p0 (marsMap st) c = Some (RoverRef r)"
        by (simp add: sq split: if_splits)
      from cD(1) [OF this]
      show "r \<in> set rvs0 - set rvs \<and> currentCoords (rovers (st\<lparr>marsMap := m'\<rparr>) r) = Some c"
        by simp
    next
      fix r assume "r \<in> set rvs0 - set rvs"
      from cD(2) [OF this] obtain c where c: "currentCoords (rovers st r) = Some c"
        "squareAt_p0 (marsMap st) c = Some (RoverRef r)"
        by blast
      then have "c \<noteq> ?c" using rock(1) by auto
      then have "squareAt_p0 m' c = Some (RoverRef r)" using c(2) by (simp add: sq)
      with c(1) show "\<exists>c. currentCoords (rovers (st\<lparr>marsMap := m'\<rparr>) r) = Some c \<and>
          squareAt_p0 (marsMap (st\<lparr>marsMap := m'\<rparr>)) c = Some (RoverRef r)"
        by simp
    qed
    then have "placingConsistent_p0 rvs0 (st\<lparr>marsMap := m'\<rparr>, numObst - 1, rvs, deploys - 1)"
      unfolding placingConsistent_p0_def using dist sub by simp
    then show ?thesis using rock(5) by (simp add: p)
  next
    case (rover m')
    let ?r = "last rvs"
    let ?st' = "st\<lparr>marsMap := m',
                     rovers := (rovers st)
                       (?r := (rovers st ?r)
                          \<lparr>currentCoords := Some ?c, travelLog := Some [?c]\<rparr>)\<rparr>"
    have sq: "squareAt_p0 m' c' = (if c' = ?c then Some (RoverRef ?r) else squareAt_p0 (marsMap st) c')" for c'
      using rover(5) by blast
    have split: "rvs = butlast rvs @ [?r]"
      using rover(3) by simp
    have r_new: "?r \<notin> set (butlast rvs)"
      using dist split by (metis distinct_append disjoint_iff_not_equal list.set_intros(1))
    have r_in: "?r \<in> set rvs0"
      using sub rover(3) by auto
    have r_old: "?r \<notin> set rvs0 - set rvs"
      using rover(3) by simp
    have R': "set rvs0 - set (butlast rvs) = insert ?r (set rvs0 - set rvs)"
    proof -
      have "set rvs = insert ?r (set (butlast rvs))"
        using split by (metis Un_insert_right append_Nil2 list.simps(15) set_append)
      then show ?thesis using r_new r_in by auto
    qed
    have "consistent_p0 ?st' (insert ?r (set rvs0 - set rvs))"
    proof (rule consistentI_p0)
      fix c r assume a: "squareAt_p0 (marsMap ?st') c = Some (RoverRef r)"
      show "r \<in> insert ?r (set rvs0 - set rvs) \<and> currentCoords (rovers ?st' r) = Some c"
      proof (cases "c = ?c")
        case True
        with a show ?thesis by (simp add: sq)
      next
        case False
        with a have "squareAt_p0 (marsMap st) c = Some (RoverRef r)"
          by (simp add: sq)
        from cD(1) [OF this] show ?thesis using r_old by auto
      qed
    next
      fix r assume a: "r \<in> insert ?r (set rvs0 - set rvs)"
      show "\<exists>c. currentCoords (rovers ?st' r) = Some c \<and>
          squareAt_p0 (marsMap ?st') c = Some (RoverRef r)"
      proof (cases "r = ?r")
        case True
        then show ?thesis by (simp add: sq)
      next
        case False
        with a have "r \<in> set rvs0 - set rvs" by simp
        from cD(2) [OF this] obtain c where c: "currentCoords (rovers st r) = Some c"
          "squareAt_p0 (marsMap st) c = Some (RoverRef r)"
          by blast
        then have "c \<noteq> ?c" using rover(1) by auto
        then have "squareAt_p0 m' c = Some (RoverRef r)" using c(2) by (simp add: sq)
        with c(1) False show ?thesis by simp
      qed
    qed
    then have "placingConsistent_p0 rvs0 (?st', numObst, butlast rvs, deploys - 1)"
      unfolding placingConsistent_p0_def prod.case R'
      using dist sub by (auto simp: distinct_butlast dest: in_set_butlastD)
    then show ?thesis using rover(6) by (simp add: p)
  qed
qed

lemma upto_placingConsistent_p0:
  assumes "landscapeSetup_upto_p0 n rnd k p = Some res" and "placingInv_p0 rnd B C amount rvs0 p"
    and "placingConsistent_p0 rvs0 p"
  shows "\<exists>st. res = Inr (st, 0, [], 0) \<and> placingConsistent_p0 rvs0 (st, 0, [], 0)"
  using assms
proof (induction n arbitrary: k p)
  case 0
  then have "\<not> 0 < snd (snd (snd p))" and "res = Inr p"
    by (auto split: if_splits)
  with placingInv_exit_p0 [OF 0(2)] 0(3) show ?case by auto
next
  case (Suc n)
  show ?case
  proof (cases "0 < snd (snd (snd p))")
    case False
    with Suc.prems(1) have "res = Inr p" by simp
    with placingInv_exit_p0 [OF Suc.prems(2) False] Suc.prems(3) show ?thesis by auto
  next
    case True
    from placingInv_body_p0 [OF Suc.prems(2) True, of k] obtain p'
      where b: "landscapeSetup_body_p0 (rnd k) p = Inr p'" and i: "placingInv_p0 rnd B C amount rvs0 p'"
      by blast
    from placingConsistent_body_p0 [OF Suc.prems(2,3) True, of k] b
    have c: "placingConsistent_p0 rvs0 p'"
      by simp
    from Suc.prems(1) True b have "landscapeSetup_upto_p0 n rnd (Suc k) p' = Some res"
      by simp
    from Suc.IH [OF this i c] show ?thesis .
  qed
qed

subsection \<open>The invariant of the data model and the orders in \<^verbatim>\<open>part_000\<close>\<close>

text \<open>
  The lemmas of the subsection of the same name, for \<^verbatim>\<open>part_000\<close>, where the square
  of a pair is \<^verbatim>\<open>map.squares[y][x]\<close>.
\<close>

lemma haveObstacle_None_p0:
  assumes "haveObstacle_p0 m d = Inr None"
  shows "insideMap_p0 m d" and "squareAt_p0 m d = Some Empty"
  using assms
  by (auto simp: haveObstacle_p0_def insideMap_p0_def squareAt_p0_def readSquare_def
      split: if_splits option.splits sum.splits)

lemma consistent_console_p0 [simp]:
  "consistent_p0 (st\<lparr>console := x\<rparr>) R = consistent_p0 st R"
  by (simp add: consistent_p0_def)

lemma repositionRover_consistent_p0:
  assumes con: "consistent_p0 st R" and r: "r \<in> R" and run: "repositionRover_p0 st r d = Inr st'"
  shows "consistent_p0 st' R"
  using run
proof (cases rule: repositionRover_p0_cases)
  case (rejected w n)
  then show ?thesis using con by simp
next
  case (accepted cc lg m1 m2)
  note cD = consistentD_p0 [OF con]
  from cD(2) [OF r] accepted(2) have at_cc: "squareAt_p0 (marsMap st) cc = Some (RoverRef r)"
    by auto
  have at_d: "squareAt_p0 (marsMap st) d = Some Empty"
    by (rule haveObstacle_None_p0(2) [OF accepted(1)])
  have ne: "d \<noteq> cc"
    using at_cc at_d by auto
  have sq1: "squareAt_p0 m1 c' = (if c' = cc then Some Empty else squareAt_p0 (marsMap st) c')" for c'
    using writeSquare_squareAt_p0 [OF accepted(4)] by blast
  have sq2: "squareAt_p0 m2 c' = (if c' = d then Some (RoverRef r) else squareAt_p0 m1 c')" for c'
    using writeSquare_squareAt_p0 [OF accepted(5)] by blast
  show ?thesis
  proof (rule consistentI_p0)
    fix c r' assume a: "squareAt_p0 (marsMap st') c = Some (RoverRef r')"
    show "r' \<in> R \<and> currentCoords (rovers st' r') = Some c"
    proof (cases "c = d")
      case True
      with a show ?thesis using r by (simp add: accepted(6) sq2)
    next
      case False
      with a have old: "squareAt_p0 (marsMap st) c = Some (RoverRef r')" and "c \<noteq> cc"
        by (auto simp: accepted(6) sq2 sq1 split: if_splits)
      with at_cc cD(1) [OF old] accepted(2) have "r' \<noteq> r"
        by auto
      with cD(1) [OF old] show ?thesis by (simp add: accepted(6))
    qed
  next
    fix r' assume a: "r' \<in> R"
    show "\<exists>c. currentCoords (rovers st' r') = Some c \<and> squareAt_p0 (marsMap st') c = Some (RoverRef r')"
    proof (cases "r' = r")
      case True
      then show ?thesis by (simp add: accepted(6) sq2)
    next
      case False
      from cD(2) [OF a] obtain c where c: "currentCoords (rovers st r') = Some c"
        "squareAt_p0 (marsMap st) c = Some (RoverRef r')"
        by blast
      have "c \<noteq> d" using c(2) at_d by auto
      moreover have "c \<noteq> cc" using c(2) at_cc False by auto
      ultimately have "squareAt_p0 m2 c = Some (RoverRef r')"
        using c(2) by (simp add: sq2 sq1)
      with c(1) False show ?thesis by (simp add: accepted(6))
    qed
  qed
qed

lemma turn_consistent_p0:
  assumes "consistent_p0 st R"
  shows "consistent_p0 (st\<lparr>rovers := (rovers st)(r := turnLeft (rovers st r))\<rparr>) R"
    and "consistent_p0 (st\<lparr>rovers := (rovers st)(r := turnRight (rovers st r))\<rparr>) R"
  using assms by (simp_all add: consistent_p0_def)

lemma moveForward_consistent_p0:
  assumes "consistent_p0 st R" and "r \<in> R" and "moveForward_p0 st r = Inr st'"
  shows "consistent_p0 st' R"
proof (cases "currentCoords (rovers st r)")
  case None
  with assms(3) show ?thesis by (simp add: moveForward_p0_def)
next
  case (Some cc)
  with assms(3) have "repositionRover_p0 st r (forwardDestination_p0 cc (direction (rovers st r))) = Inr st'"
    by (simp add: moveForward_p0_def)
  then show ?thesis by (rule repositionRover_consistent_p0 [OF assms(1,2)])
qed

lemma moveBackwards_consistent_p0:
  assumes "consistent_p0 st R" and "r \<in> R" and "moveBackwards_p0 st r = Inr st'"
  shows "consistent_p0 st' R"
proof (cases "currentCoords (rovers st r)")
  case None
  with assms(3) show ?thesis by (simp add: moveBackwards_p0_def)
next
  case (Some cc)
  with assms(3) have "repositionRover_p0 st r (backwardDestination_p0 cc (direction (rovers st r))) = Inr st'"
    by (simp add: moveBackwards_p0_def)
  then show ?thesis by (rule repositionRover_consistent_p0 [OF assms(1,2)])
qed

lemma executeOrder_consistent_p0:
  assumes "consistent_p0 st R" and "fst ord \<in> R" and "executeOrder_p0 st ord = Inr st'"
  shows "consistent_p0 st' R"
proof -
  consider "snd ord = ''l''" | "snd ord = ''r''" | "snd ord = ''f''" | "snd ord = ''b''"
    | "snd ord \<notin> {''l'', ''r'', ''f'', ''b''}"
    by blast
  then show ?thesis
  proof cases
    case 1
    with assms(3) have "st' = st\<lparr>rovers := (rovers st)(fst ord := turnLeft (rovers st (fst ord)))\<rparr>"
      by (simp add: executeOrder_p0_def)
    then show ?thesis using turn_consistent_p0(1) [OF assms(1)] by simp
  next
    case 2
    with assms(3) have "st' = st\<lparr>rovers := (rovers st)(fst ord := turnRight (rovers st (fst ord)))\<rparr>"
      by (simp add: executeOrder_p0_def)
    then show ?thesis using turn_consistent_p0(2) [OF assms(1)] by simp
  next
    case 3
    with assms(3) have "moveForward_p0 st (fst ord) = Inr st'"
      by (simp add: executeOrder_p0_def)
    then show ?thesis by (rule moveForward_consistent_p0 [OF assms(1,2)])
  next
    case 4
    with assms(3) have "moveBackwards_p0 st (fst ord) = Inr st'"
      by (simp add: executeOrder_p0_def)
    then show ?thesis by (rule moveBackwards_consistent_p0 [OF assms(1,2)])
  next
    case 5
    with assms(3) have "st' = st"
      by (simp add: executeOrder_p0_def)
    then show ?thesis using assms(1) by simp
  qed
qed

lemma executeOrders_consistent_p0:
  assumes "consistent_p0 st R" and "\<forall>ord\<in>set orders. fst ord \<in> R"
    and "executeOrders_p0 st orders = Inr st'"
  shows "consistent_p0 st' R"
  using assms
proof (induction orders arbitrary: st)
  case Nil
  then show ?case by simp
next
  case (Cons ord orders)
  from Cons.prems(3) obtain st1 where one: "executeOrder_p0 st ord = Inr st1"
    and rest: "executeOrders_p0 st1 orders = Inr st'"
    by (auto split: sum.splits)
  have "consistent_p0 st1 R"
    using executeOrder_consistent_p0 [OF Cons.prems(1) _ one] Cons.prems(2) by simp
  from Cons.IH [OF this _ rest] Cons.prems(2) show ?case by simp
qed

lemma showTravels_consistent_p0:
  assumes "showTravels_p0 st ps = Inr st'"
  shows "consistent_p0 st' R = consistent_p0 st R"
  using showTravels_p0_result [OF assms] by auto

lemma commandRovers_consistent_p0:
  assumes "consistent_p0 st R" and "\<forall>p\<in>set cl. rover p \<in> R"
    and "commandRovers_p0 st cl = Inr (st', cl')"
  shows "consistent_p0 st' R"
proof (cases "hasInvalidCommands cl")
  case (Some r)
  with assms(3) obtain n where "st' = st\<lparr>console := console st @
      [Warning n ''has wrong commands. Only l,r,f,b are valid commands'']\<rparr>"
    by (auto simp: commandRovers_p0_def issueWarning_def split: sum.splits)
  then show ?thesis using assms(1) by simp
next
  case None
  from commandRovers_p0_accepts [OF None assms(3)] obtain orders st1
    where c: "chainList cl = Inr (orders, cl')"
      and e: "executeOrders_p0 st orders = Inr st1"
      and t: "showTravels_p0 st1 cl' = Inr st'"
    by blast
  have "\<forall>ord\<in>set orders. fst ord \<in> R"
    using chain_rovers(1) [OF c] assms(2) by auto
  from executeOrders_consistent_p0 [OF assms(1) this e] showTravels_consistent_p0 [OF t]
  show ?thesis by simp
qed

lemma consistent_one_rover_per_square_p0:
  assumes "consistent_p0 st R" and "r1 \<in> R" and "r2 \<in> R"
    and "currentCoords (rovers st r1) = currentCoords (rovers st r2)"
  shows "r1 = r2"
  using consistentD_p0(2) [OF assms(1,2)] consistentD_p0(2) [OF assms(1,3)] assms(4) by auto

subsection \<open>The whole of \<open>landscapeSetup\<close>\<close>

text \<open>
  From the map that \<^verbatim>\<open>generateMap\<close> makes: the invariants hold when the loop begins, so
  the call returns \<^verbatim>\<open>true\<close> whenever it returns within capacity, and it returns exactly
  when the samples come to hold enough different squares.
\<close>

lemma landscapeSetup_start:
  assumes gen: "generateMap xSize ySize = Some (marsMap st)" and n0: "0 \<le> numObst"
    and rnd: "\<forall>k. 0 \<le> fst (rnd k) \<and> fst (rnd k) < xSize \<and> 0 \<le> snd (rnd k) \<and> snd (rnd k) < ySize"
  shows "placingInv rnd (boundaries (marsMap st)) (console st) (numObst + int (length rvs)) rvs
           (st, numObst, rvs, numObst + int (length rvs))"
    and "distinct rvs \<Longrightarrow> placingConsistent rvs (st, numObst, rvs, numObst + int (length rvs))"
proof -
  note g = generateMap_squareAt [OF gen]
  note r = generateMap_rectangular [OF gen]
  show "placingInv rnd (boundaries (marsMap st)) (console st) (numObst + int (length rvs)) rvs
           (st, numObst, rvs, numObst + int (length rvs))"
  proof (rule placingInvI)
    show "insideMap (marsMap st) (rnd k)" for k
      using spec [OF rnd, of k] by (auto simp: insideMap_def g(2))
    show "int (card (occupiedCells (marsMap st))) + (numObst + int (length rvs)) =
        numObst + int (length rvs)"
      by (simp add: r(2))
  qed (simp_all add: r(1) n0)
  have "consistent st {}"
    by (rule consistentI) (simp_all add: g(1) split: if_splits)
  then show "placingConsistent rvs (st, numObst, rvs, numObst + int (length rvs))" if "distinct rvs"
    unfolding placingConsistent_def using that by simp
qed

lemma landscapeSetup_full:
  assumes "down (boundaries (marsMap st)) * right (boundaries (marsMap st)) <
             numObst + int (length rvs)"
  shows "landscapeSetup rnd st numObst rvs = Some (Inr (False, st))"
  using assms by (simp add: landscapeSetup_def Let_def)

lemma landscapeSetup_Some:
  assumes "numObst + int (length rvs) \<le>
             down (boundaries (marsMap st)) * right (boundaries (marsMap st))"
  shows "landscapeSetup rnd st numObst rvs = Some res \<longleftrightarrow>
           (\<exists>n r. landscapeSetup_upto n rnd 0 (st, numObst, rvs, numObst + int (length rvs)) = Some r \<and>
              res = (case r of Inl e \<Rightarrow> Inl e | Inr p \<Rightarrow> Inr (True, fst p)))"
proof -
  let ?p = "(st, numObst, rvs, numObst + int (length rvs))"
  have "landscapeSetup rnd st numObst rvs =
      (case landscapeSetup_loop rnd 0 ?p of None \<Rightarrow> None
       | Some r \<Rightarrow> Some (case r of Inl e \<Rightarrow> Inl e | Inr p \<Rightarrow> Inr (True, fst p)))"
    using assms by (simp add: landscapeSetup_def Let_def split: option.splits sum.splits)
  then have eq: "landscapeSetup rnd st numObst rvs = Some res \<longleftrightarrow>
      (\<exists>r. landscapeSetup_loop rnd 0 ?p = Some r \<and>
         res = (case r of Inl e \<Rightarrow> Inl e | Inr p \<Rightarrow> Inr (True, fst p)))"
    by (cases "landscapeSetup_loop rnd 0 ?p") auto
  show ?thesis
    unfolding eq loop_iff_upto by blast
qed

lemma landscapeSetup_result:
  assumes gen: "generateMap xSize ySize = Some (marsMap st)" and n0: "0 \<le> numObst"
    and rnd: "\<forall>k. 0 \<le> fst (rnd k) \<and> fst (rnd k) < xSize \<and> 0 \<le> snd (rnd k) \<and> snd (rnd k) < ySize"
    and cap: "numObst + int (length rvs) \<le> xSize * ySize"
    and run: "landscapeSetup rnd st numObst rvs = Some res"
  shows "\<exists>st'. res = Inr (True, st') \<and>
           placingInv rnd (boundaries (marsMap st)) (console st) (numObst + int (length rvs)) rvs
             (st', 0, [], 0) \<and>
           (distinct rvs \<longrightarrow> consistent st' (set rvs))"
proof -
  note g = generateMap_squareAt [OF gen]
  have cap': "numObst + int (length rvs) \<le>
             down (boundaries (marsMap st)) * right (boundaries (marsMap st))"
    using cap by (simp add: g(2))
  from run landscapeSetup_Some [OF cap'] obtain n r
    where u: "landscapeSetup_upto n rnd 0 (st, numObst, rvs, numObst + int (length rvs)) = Some r"
      and res: "res = (case r of Inl e \<Rightarrow> Inl e | Inr p \<Rightarrow> Inr (True, fst p))"
    by blast
  note start = landscapeSetup_start [OF gen n0 rnd, of rvs]
  from upto_placingInv [OF u start(1)] obtain st'
    where r: "r = Inr (st', 0, [], 0)"
      and inv: "placingInv rnd (boundaries (marsMap st)) (console st)
                  (numObst + int (length rvs)) rvs (st', 0, [], 0)"
    by blast
  have "consistent st' (set rvs)" if "distinct rvs"
    using upto_placingConsistent [OF u start(1) start(2) [OF that]] r
    by (simp add: placingConsistent_def)
  then show ?thesis using res r inv by simp
qed

lemma landscapeSetup_returns_iff:
  assumes gen: "generateMap xSize ySize = Some (marsMap st)" and n0: "0 \<le> numObst"
    and rnd: "\<forall>k. 0 \<le> fst (rnd k) \<and> fst (rnd k) < xSize \<and> 0 \<le> snd (rnd k) \<and> snd (rnd k) < ySize"
    and cap: "numObst + int (length rvs) \<le> xSize * ySize"
  shows "landscapeSetup rnd st numObst rvs \<noteq> None \<longleftrightarrow>
           (\<exists>n. nat (numObst + int (length rvs)) \<le> card (rnd ` {..<n}))"
proof -
  note g = generateMap_squareAt [OF gen]
  note r = generateMap_rectangular [OF gen]
  let ?p = "(st, numObst, rvs, numObst + int (length rvs))"
  have cap': "numObst + int (length rvs) \<le>
             down (boundaries (marsMap st)) * right (boundaries (marsMap st))"
    using cap by (simp add: g(2))
  note start = landscapeSetup_start [OF gen n0 rnd, of rvs]
  have set_eq: "rnd ` {0..<0 + n} - occupiedCells (marsMap (fst ?p)) = rnd ` {..<n}" for n
    by (simp add: r(2) atLeast0LessThan)
  have "landscapeSetup rnd st numObst rvs \<noteq> None \<longleftrightarrow>
      (\<exists>n res. landscapeSetup_upto n rnd 0 ?p = Some res)"
    using landscapeSetup_Some [OF cap', of rnd] by (metis not_Some_eq)
  also have "\<dots> \<longleftrightarrow> (\<exists>n. nat (numObst + int (length rvs)) \<le> card (rnd ` {..<n}))"
  proof
    assume "\<exists>n res. landscapeSetup_upto n rnd 0 ?p = Some res"
    then obtain n res where "landscapeSetup_upto n rnd 0 ?p = Some res"
      by blast
    from return_needs_samples [OF start(1) this] show "\<exists>n. nat (numObst + int (length rvs)) \<le> card (rnd ` {..<n})"
      unfolding set_eq by auto
  next
    assume "\<exists>n. nat (numObst + int (length rvs)) \<le> card (rnd ` {..<n})"
    then obtain n where "nat (numObst + int (length rvs)) \<le> card (rnd ` {..<n})"
      by blast
    then have "nat (snd (snd (snd ?p))) \<le> card (rnd ` {0..<0 + n} - occupiedCells (marsMap (fst ?p)))"
      unfolding set_eq by simp
    from enough_samples_return [OF start(1) this] show "\<exists>n res. landscapeSetup_upto n rnd 0 ?p = Some res"
      by blast
  qed
  finally show ?thesis .
qed

subsection \<open>The whole of \<open>landscapeSetup_p0\<close>\<close>

text \<open>
  The same from the map that \<^verbatim>\<open>generateEmptyMap\<close> makes in \<^verbatim>\<open>part_000\<close>.
\<close>

lemma landscapeSetup_start_p0:
  assumes gen: "generateEmptyMap_p0 xSize ySize = Some (marsMap st)" and n0: "0 \<le> numObst"
    and rnd: "\<forall>k. 0 \<le> fst (rnd k) \<and> fst (rnd k) < xSize \<and> 0 \<le> snd (rnd k) \<and> snd (rnd k) < ySize"
  shows "placingInv_p0 rnd (boundaries (marsMap st)) (console st) (numObst + int (length rvs)) rvs
           (st, numObst, rvs, numObst + int (length rvs))"
    and "distinct rvs \<Longrightarrow> placingConsistent_p0 rvs (st, numObst, rvs, numObst + int (length rvs))"
proof -
  note g = generateMap_squareAt_p0 [OF gen]
  note r = generateMap_rectangular_p0 [OF gen]
  show "placingInv_p0 rnd (boundaries (marsMap st)) (console st) (numObst + int (length rvs)) rvs
           (st, numObst, rvs, numObst + int (length rvs))"
  proof (rule placingInvI_p0)
    show "insideMap_p0 (marsMap st) (rnd k)" for k
      using spec [OF rnd, of k] by (auto simp: insideMap_p0_def g(2))
    show "int (card (occupiedCells_p0 (marsMap st))) + (numObst + int (length rvs)) =
        numObst + int (length rvs)"
      by (simp add: r(2))
  qed (simp_all add: r(1) n0)
  have "consistent_p0 st {}"
    by (rule consistentI_p0) (simp_all add: g(1) split: if_splits)
  then show "placingConsistent_p0 rvs (st, numObst, rvs, numObst + int (length rvs))" if "distinct rvs"
    unfolding placingConsistent_p0_def using that by simp
qed

lemma landscapeSetup_full_p0:
  assumes "down (boundaries (marsMap st)) * right (boundaries (marsMap st)) <
             numObst + int (length rvs)"
  shows "landscapeSetup_p0 rnd st numObst rvs = Some (Inr (False, st))"
  using assms by (simp add: landscapeSetup_p0_def Let_def)

lemma landscapeSetup_Some_p0:
  assumes "numObst + int (length rvs) \<le>
             down (boundaries (marsMap st)) * right (boundaries (marsMap st))"
  shows "landscapeSetup_p0 rnd st numObst rvs = Some res \<longleftrightarrow>
           (\<exists>n r. landscapeSetup_upto_p0 n rnd 0 (st, numObst, rvs, numObst + int (length rvs)) = Some r \<and>
              res = (case r of Inl e \<Rightarrow> Inl e | Inr p \<Rightarrow> Inr (True, fst p)))"
proof -
  let ?p = "(st, numObst, rvs, numObst + int (length rvs))"
  have "landscapeSetup_p0 rnd st numObst rvs =
      (case landscapeSetup_loop_p0 rnd 0 ?p of None \<Rightarrow> None
       | Some r \<Rightarrow> Some (case r of Inl e \<Rightarrow> Inl e | Inr p \<Rightarrow> Inr (True, fst p)))"
    using assms by (simp add: landscapeSetup_p0_def Let_def split: option.splits sum.splits)
  then have eq: "landscapeSetup_p0 rnd st numObst rvs = Some res \<longleftrightarrow>
      (\<exists>r. landscapeSetup_loop_p0 rnd 0 ?p = Some r \<and>
         res = (case r of Inl e \<Rightarrow> Inl e | Inr p \<Rightarrow> Inr (True, fst p)))"
    by (cases "landscapeSetup_loop_p0 rnd 0 ?p") auto
  show ?thesis
    unfolding eq loop_iff_upto_p0 by blast
qed

lemma landscapeSetup_result_p0:
  assumes gen: "generateEmptyMap_p0 xSize ySize = Some (marsMap st)" and n0: "0 \<le> numObst"
    and rnd: "\<forall>k. 0 \<le> fst (rnd k) \<and> fst (rnd k) < xSize \<and> 0 \<le> snd (rnd k) \<and> snd (rnd k) < ySize"
    and cap: "numObst + int (length rvs) \<le> xSize * ySize"
    and run: "landscapeSetup_p0 rnd st numObst rvs = Some res"
  shows "\<exists>st'. res = Inr (True, st') \<and>
           placingInv_p0 rnd (boundaries (marsMap st)) (console st) (numObst + int (length rvs)) rvs
             (st', 0, [], 0) \<and>
           (distinct rvs \<longrightarrow> consistent_p0 st' (set rvs))"
proof -
  note g = generateMap_squareAt_p0 [OF gen]
  have cap': "numObst + int (length rvs) \<le>
             down (boundaries (marsMap st)) * right (boundaries (marsMap st))"
    using cap by (simp add: g(2) mult.commute)
  from run landscapeSetup_Some_p0 [OF cap'] obtain n r
    where u: "landscapeSetup_upto_p0 n rnd 0 (st, numObst, rvs, numObst + int (length rvs)) = Some r"
      and res: "res = (case r of Inl e \<Rightarrow> Inl e | Inr p \<Rightarrow> Inr (True, fst p))"
    by blast
  note start = landscapeSetup_start_p0 [OF gen n0 rnd, of rvs]
  from upto_placingInv_p0 [OF u start(1)] obtain st'
    where r: "r = Inr (st', 0, [], 0)"
      and inv: "placingInv_p0 rnd (boundaries (marsMap st)) (console st)
                  (numObst + int (length rvs)) rvs (st', 0, [], 0)"
    by blast
  have "consistent_p0 st' (set rvs)" if "distinct rvs"
    using upto_placingConsistent_p0 [OF u start(1) start(2) [OF that]] r
    by (simp add: placingConsistent_p0_def)
  then show ?thesis using res r inv by simp
qed

lemma landscapeSetup_returns_iff_p0:
  assumes gen: "generateEmptyMap_p0 xSize ySize = Some (marsMap st)" and n0: "0 \<le> numObst"
    and rnd: "\<forall>k. 0 \<le> fst (rnd k) \<and> fst (rnd k) < xSize \<and> 0 \<le> snd (rnd k) \<and> snd (rnd k) < ySize"
    and cap: "numObst + int (length rvs) \<le> xSize * ySize"
  shows "landscapeSetup_p0 rnd st numObst rvs \<noteq> None \<longleftrightarrow>
           (\<exists>n. nat (numObst + int (length rvs)) \<le> card (rnd ` {..<n}))"
proof -
  note g = generateMap_squareAt_p0 [OF gen]
  note r = generateMap_rectangular_p0 [OF gen]
  let ?p = "(st, numObst, rvs, numObst + int (length rvs))"
  have cap': "numObst + int (length rvs) \<le>
             down (boundaries (marsMap st)) * right (boundaries (marsMap st))"
    using cap by (simp add: g(2) mult.commute)
  note start = landscapeSetup_start_p0 [OF gen n0 rnd, of rvs]
  have set_eq: "rnd ` {0..<0 + n} - occupiedCells_p0 (marsMap (fst ?p)) = rnd ` {..<n}" for n
    by (simp add: r(2) atLeast0LessThan)
  have "landscapeSetup_p0 rnd st numObst rvs \<noteq> None \<longleftrightarrow>
      (\<exists>n res. landscapeSetup_upto_p0 n rnd 0 ?p = Some res)"
    using landscapeSetup_Some_p0 [OF cap', of rnd] by (metis not_Some_eq)
  also have "\<dots> \<longleftrightarrow> (\<exists>n. nat (numObst + int (length rvs)) \<le> card (rnd ` {..<n}))"
  proof
    assume "\<exists>n res. landscapeSetup_upto_p0 n rnd 0 ?p = Some res"
    then obtain n res where "landscapeSetup_upto_p0 n rnd 0 ?p = Some res"
      by blast
    from return_needs_samples_p0 [OF start(1) this] show "\<exists>n. nat (numObst + int (length rvs)) \<le> card (rnd ` {..<n})"
      unfolding set_eq by auto
  next
    assume "\<exists>n. nat (numObst + int (length rvs)) \<le> card (rnd ` {..<n})"
    then obtain n where "nat (numObst + int (length rvs)) \<le> card (rnd ` {..<n})"
      by blast
    then have "nat (snd (snd (snd ?p))) \<le> card (rnd ` {0..<0 + n} - occupiedCells_p0 (marsMap (fst ?p)))"
      unfolding set_eq by simp
    from enough_samples_return_p0 [OF start(1) this] show "\<exists>n res. landscapeSetup_upto_p0 n rnd 0 ?p = Some res"
      by blast
  qed
  finally show ?thesis .
qed

subsection \<open>The example streams and the example setup\<close>

lemma drawThree_inside:
  "\<forall>k. 0 \<le> fst (drawThree k) \<and> fst (drawThree k) < 10 \<and>
       0 \<le> snd (drawThree k) \<and> snd (drawThree k) < 10"
  by (simp add: drawThree_def)

lemma drawOrigin_inside:
  "\<forall>k. 0 \<le> fst (drawOrigin k) \<and> fst (drawOrigin k) < 10 \<and>
       0 \<le> snd (drawOrigin k) \<and> snd (drawOrigin k) < 10"
  by (simp add: drawOrigin_def)

lemma drawThree_card: "card (drawThree ` {..<3}) = 3"
proof -
  have "{..<3::nat} = {0, 1, 2}"
    by auto
  then have "drawThree ` {..<3} = {(7, 7), (2, 2), (5, 5)}"
    by (auto simp: drawThree_def)
  then show ?thesis by simp
qed

lemma drawOrigin_card: "card (drawOrigin ` {..<n}) \<le> 1"
proof -
  have "drawOrigin ` {..<n} \<subseteq> {(0, 0)}"
    by (auto simp: drawOrigin_def)
  then have "card (drawOrigin ` {..<n}) \<le> card {(0, 0) :: coords}"
    by (intro card_mono) simp_all
  then show ?thesis by simp
qed

lemma unplaced_map:
  obtains st :: "'e world" where "unplaced (generateMap 10 10) = Some st"
    and "generateMap 10 10 = Some (marsMap st)"
  by (rule that [of "\<lparr>marsMap = the (generateMap 10 10), rovers = roverSetup, console = []\<rparr>"])
    (simp_all add: unplaced_def generateMap_def)

lemma unplaced_map_p0:
  obtains st :: "'e world" where "unplaced (generateEmptyMap_p0 10 10) = Some st"
    and "generateEmptyMap_p0 10 10 = Some (marsMap st)"
  by (rule that [of "\<lparr>marsMap = the (generateEmptyMap_p0 10 10), rovers = roverSetup, console = []\<rparr>"])
    (simp_all add: unplaced_def generateEmptyMap_p0_def)

lemma setup_js:
  "\<exists>st0 st. unplaced (generateMap 10 10) = Some st0 \<and>
     generateMap 10 10 = Some (marsMap st0) \<and>
     landscapeSetup drawThree st0 1 [marsRoverAlpha, marsRoverBeta] = Some (Inr (True, st)) \<and>
     placedWorld = Some st"
  by (simp add: placedWorld_def unplaced_def generateMap_def landscapeSetup_def
      landscapeSetup_loop.simps landscapeSetup_body_def readSquare_def writeSquare_def
      fillSquares_apply fillRow_apply drawThree_def roverSetup_def marsRoverAlpha_def
      marsRoverBeta_def)

lemma setup_p0:
  "\<exists>st0 st. unplaced (generateEmptyMap_p0 10 10) = Some st0 \<and>
     generateEmptyMap_p0 10 10 = Some (marsMap st0) \<and>
     landscapeSetup_p0 drawThree st0 1 [marsRoverAlpha, marsRoverBeta] = Some (Inr (True, st)) \<and>
     placedWorld_p0 = Some st"
  by (simp add: placedWorld_p0_def unplaced_def generateEmptyMap_p0_def landscapeSetup_p0_def
      landscapeSetup_loop_p0.simps landscapeSetup_body_p0_def readSquare_def writeSquare_def
      fillSquares_apply fillRow_apply drawThree_def roverSetup_def marsRoverAlpha_def
      marsRoverBeta_def)

subsection \<open>Capacity and placement\<close>

lemma placed_all:
  assumes gen: "generateMap xSize ySize = Some (marsMap st)"
    and inv: "placingInv rnd (boundaries (marsMap st)) (console st) (numObst + int (length rvs)) rvs
             (st', 0, [], 0)"
    and n0: "0 \<le> numObst"
  shows "finite (occupiedCells (marsMap st')) \<and>
         card (occupiedCells (marsMap st')) = nat (numObst + int (length rvs)) \<and>
         (\<forall>c\<in>occupiedCells (marsMap st').
            0 \<le> fst c \<and> fst c < xSize \<and> 0 \<le> snd c \<and> snd c < ySize) \<and>
         (\<forall>r\<in>set rvs. \<exists>c. currentCoords (rovers st' r) = Some c \<and>
            travelLog (rovers st' r) = Some [ObjectLiteral c] \<and>
            readLog (rovers st' r) = Some [c] \<and>
            squareAt (marsMap st') c = Some (RoverRef r)) \<and>
         boundaries (marsMap st') = boundaries (marsMap st) \<and> console st' = console st"
proof -
  note g = generateMap_squareAt [OF gen]
  note D = placingInvD [OF inv]
  have fin: "finite (occupiedCells (marsMap st'))"
    by (rule occupied_finite [OF D(1)])
  have card: "card (occupiedCells (marsMap st')) = nat (numObst + int (length rvs))"
    using D(7) by simp
  have ins: "0 \<le> fst c \<and> fst c < xSize \<and> 0 \<le> snd c \<and> snd c < ySize"
    if "c \<in> occupiedCells (marsMap st')" for c
  proof -
    from that occupied_inside [OF D(1)] have "insideMap (marsMap st') c"
      by blast
    then show ?thesis
      by (auto simp: insideMap_def D(2) g(2))
  qed
  have pl: "\<exists>c. currentCoords (rovers st' r) = Some c \<and>
            travelLog (rovers st' r) = Some [ObjectLiteral c] \<and>
            readLog (rovers st' r) = Some [c] \<and>
            squareAt (marsMap st') c = Some (RoverRef r)" if "r \<in> set rvs" for r
    using D(8) [OF that] by (auto simp: readLog_def readEntry_def)
  show ?thesis
    using fin card ins pl D(2,3) by blast
qed

lemma placed_all_p0:
  assumes gen: "generateEmptyMap_p0 xSize ySize = Some (marsMap st)"
    and inv: "placingInv_p0 rnd (boundaries (marsMap st)) (console st) (numObst + int (length rvs)) rvs
             (st', 0, [], 0)"
    and n0: "0 \<le> numObst"
  shows "finite (occupiedCells_p0 (marsMap st')) \<and>
         card (occupiedCells_p0 (marsMap st')) = nat (numObst + int (length rvs)) \<and>
         (\<forall>c\<in>occupiedCells_p0 (marsMap st').
            0 \<le> fst c \<and> fst c < xSize \<and> 0 \<le> snd c \<and> snd c < ySize) \<and>
         (\<forall>r\<in>set rvs. \<exists>c. currentCoords (rovers st' r) = Some c \<and>
            travelLog (rovers st' r) = Some [c] \<and>
            squareAt_p0 (marsMap st') c = Some (RoverRef r)) \<and>
         boundaries (marsMap st') = boundaries (marsMap st) \<and> console st' = console st"
proof -
  note g = generateMap_squareAt_p0 [OF gen]
  note D = placingInvD_p0 [OF inv]
  have fin: "finite (occupiedCells_p0 (marsMap st'))"
    by (rule occupied_finite_p0 [OF D(1)])
  have card: "card (occupiedCells_p0 (marsMap st')) = nat (numObst + int (length rvs))"
    using D(7) by simp
  have ins: "0 \<le> fst c \<and> fst c < xSize \<and> 0 \<le> snd c \<and> snd c < ySize"
    if "c \<in> occupiedCells_p0 (marsMap st')" for c
  proof -
    from that occupied_inside_p0 [OF D(1)] have "insideMap_p0 (marsMap st') c"
      by blast
    then show ?thesis
      by (auto simp: insideMap_p0_def D(2) g(2))
  qed
  have pl: "\<exists>c. currentCoords (rovers st' r) = Some c \<and>
            travelLog (rovers st' r) = Some [c] \<and>
            squareAt_p0 (marsMap st') c = Some (RoverRef r)" if "r \<in> set rvs" for r
    using D(8) [OF that] by auto
  show ?thesis
    using fin card ins pl D(2,3) by blast
qed

text \<open>
  C6, as the specification states it, fails: within capacity the call need not succeed.
  On the \<open>10 \<times> 10\<close> map, with no obstacle and the two rovers Alpha and Beta to place, the
  stream that always draws \<open>(0, 0)\<close> places Beta there and then finds that square
  occupied for ever: the call does not return, in either file.
\<close>

theorem second_rover_is_never_placed:
  "unplaced (generateMap 10 10) = Some (bareWorld :: entry world) \<and>
   unplaced (generateEmptyMap_p0 10 10) = Some (bareWorld :: coords world) \<and>
   0 + int (length [marsRoverAlpha, marsRoverBeta]) \<le> 10 * 10 \<and>
   landscapeSetup drawOrigin bareWorld 0 [marsRoverAlpha, marsRoverBeta] = None \<and>
   landscapeSetup_p0 drawOrigin bareWorld 0 [marsRoverAlpha, marsRoverBeta] = None"
proof -
  let ?rvs = "[marsRoverAlpha, marsRoverBeta]"
  have gen: "generateMap 10 10 = Some (marsMap (bareWorld :: entry world))"
    and gen0: "generateEmptyMap_p0 10 10 = Some (marsMap (bareWorld :: coords world))"
    by (simp_all add: generateMap_def generateEmptyMap_p0_def bareWorld_def)
  have n0: "(0::int) \<le> 0" and cap: "0 + int (length ?rvs) \<le> 10 * 10"
    by simp_all
  have few: "\<not> (\<exists>n. nat (0 + int (length ?rvs)) \<le> card (drawOrigin ` {..<n}))"
  proof
    assume "\<exists>n. nat (0 + int (length ?rvs)) \<le> card (drawOrigin ` {..<n})"
    then obtain n where "2 \<le> card (drawOrigin ` {..<n})"
      by auto
    with drawOrigin_card [of n] show False
      by simp
  qed
  have a: "landscapeSetup drawOrigin bareWorld 0 ?rvs = None"
    using landscapeSetup_returns_iff [OF gen n0 drawOrigin_inside cap] few by blast
  have b: "landscapeSetup_p0 drawOrigin bareWorld 0 ?rvs = None"
    using landscapeSetup_returns_iff_p0 [OF gen0 n0 drawOrigin_inside cap] few by blast
  show ?thesis
    by (intro conjI unplaced_bareWorld cap a b)
qed

text \<open>
  C6, amended. For every map of positive dimensions that \<^verbatim>\<open>generateMap\<close> (in \<^verbatim>\<open>part_000\<close>,
  \<^verbatim>\<open>generateEmptyMap\<close>) has made, every obstacle count that is not negative and every list
  of rovers, with samples drawn inside the map: if the obstacles and the rovers are more
  than the squares, \<^verbatim>\<open>landscapeSetup\<close> returns \<^verbatim>\<open>false\<close> and leaves the map, the rovers
  and the console as they were. Otherwise the call succeeds, returning \<^verbatim>\<open>true\<close>, exactly
  when the samples come to visit at least \<open>numObst + |rovers|\<close> different squares (on any
  other stream it does not return); and every result that it returns is \<^verbatim>\<open>true\<close>, with
  a state in which exactly \<open>numObst + |rovers|\<close> squares are occupied, each of them
  inside the bounds, and every rover of the list has its position, and a history of that
  one entry, at a square that holds it.
\<close>

theorem landscapeSetup_checks_capacity_and_places_all:
  fixes st :: "entry world" and st0 :: "coords world"
  assumes "generateMap xSize ySize = Some (marsMap st)"
    and "generateEmptyMap_p0 xSize ySize = Some (marsMap st0)"
    and "0 \<le> numObst"
    and "\<forall>k. 0 \<le> fst (rnd k) \<and> fst (rnd k) < xSize \<and> 0 \<le> snd (rnd k) \<and> snd (rnd k) < ySize"
  shows
    "(xSize * ySize < numObst + int (length rvs) \<longrightarrow>
        landscapeSetup rnd st numObst rvs = Some (Inr (False, st)) \<and>
        landscapeSetup_p0 rnd st0 numObst rvs = Some (Inr (False, st0))) \<and>
     (numObst + int (length rvs) \<le> xSize * ySize \<longrightarrow>
        (\<forall>res. landscapeSetup rnd st numObst rvs = Some res \<longrightarrow>
           (\<exists>st'. res = Inr (True, st') \<and>
              finite (occupiedCells (marsMap st')) \<and>
              card (occupiedCells (marsMap st')) = nat (numObst + int (length rvs)) \<and>
              (\<forall>c\<in>occupiedCells (marsMap st').
                 0 \<le> fst c \<and> fst c < xSize \<and> 0 \<le> snd c \<and> snd c < ySize) \<and>
              (\<forall>r\<in>set rvs. \<exists>c. currentCoords (rovers st' r) = Some c \<and>
                 travelLog (rovers st' r) = Some [ObjectLiteral c] \<and>
                 readLog (rovers st' r) = Some [c] \<and>
                 squareAt (marsMap st') c = Some (RoverRef r)) \<and>
              boundaries (marsMap st') = boundaries (marsMap st) \<and> console st' = console st)) \<and>
        ((\<exists>n. nat (numObst + int (length rvs)) \<le> card (rnd ` {..<n})) =
           (\<exists>st'. landscapeSetup rnd st numObst rvs = Some (Inr (True, st')))) \<and>
        (\<forall>res. landscapeSetup_p0 rnd st0 numObst rvs = Some res \<longrightarrow>
           (\<exists>st'. res = Inr (True, st') \<and>
              finite (occupiedCells_p0 (marsMap st')) \<and>
              card (occupiedCells_p0 (marsMap st')) = nat (numObst + int (length rvs)) \<and>
              (\<forall>c\<in>occupiedCells_p0 (marsMap st').
                 0 \<le> fst c \<and> fst c < xSize \<and> 0 \<le> snd c \<and> snd c < ySize) \<and>
              (\<forall>r\<in>set rvs. \<exists>c. currentCoords (rovers st' r) = Some c \<and>
                 travelLog (rovers st' r) = Some [c] \<and>
                 squareAt_p0 (marsMap st') c = Some (RoverRef r)) \<and>
              boundaries (marsMap st') = boundaries (marsMap st0) \<and> console st' = console st0)) \<and>
        ((\<exists>n. nat (numObst + int (length rvs)) \<le> card (rnd ` {..<n})) =
           (\<exists>st'. landscapeSetup_p0 rnd st0 numObst rvs = Some (Inr (True, st')))))"
    (is "?full \<and> (?cap \<longrightarrow> ?safe \<and> ?live \<and> ?safeP \<and> ?liveP)")
proof -
  note g = generateMap_squareAt [OF assms(1)]
  note g0 = generateMap_squareAt_p0 [OF assms(2)]
  have full: ?full
  proof
    assume over: "xSize * ySize < numObst + int (length rvs)"
    have "landscapeSetup rnd st numObst rvs = Some (Inr (False, st))"
      by (rule landscapeSetup_full) (use over in \<open>simp add: g(2)\<close>)
    moreover have "landscapeSetup_p0 rnd st0 numObst rvs = Some (Inr (False, st0))"
      by (rule landscapeSetup_full_p0) (use over in \<open>simp add: g0(2) mult.commute\<close>)
    ultimately show "landscapeSetup rnd st numObst rvs = Some (Inr (False, st)) \<and>
        landscapeSetup_p0 rnd st0 numObst rvs = Some (Inr (False, st0))"
      by simp
  qed
  have rest: "?safe \<and> ?live \<and> ?safeP \<and> ?liveP" if cap: ?cap
  proof -
    have safe: ?safe
    proof (intro allI impI)
      fix res assume "landscapeSetup rnd st numObst rvs = Some res"
      from landscapeSetup_result [OF assms(1,3,4) cap this] obtain st'
        where "res = Inr (True, st')"
          and "placingInv rnd (boundaries (marsMap st)) (console st) (numObst + int (length rvs)) rvs
             (st', 0, [], 0)"
        by blast
      with placed_all [OF assms(1) _ assms(3)]
      show "\<exists>st'. res = Inr (True, st') \<and>
              finite (occupiedCells (marsMap st')) \<and>
              card (occupiedCells (marsMap st')) = nat (numObst + int (length rvs)) \<and>
              (\<forall>c\<in>occupiedCells (marsMap st').
                 0 \<le> fst c \<and> fst c < xSize \<and> 0 \<le> snd c \<and> snd c < ySize) \<and>
              (\<forall>r\<in>set rvs. \<exists>c. currentCoords (rovers st' r) = Some c \<and>
                 travelLog (rovers st' r) = Some [ObjectLiteral c] \<and>
                 readLog (rovers st' r) = Some [c] \<and>
                 squareAt (marsMap st') c = Some (RoverRef r)) \<and>
              boundaries (marsMap st') = boundaries (marsMap st) \<and> console st' = console st"
        by blast
    qed
    have safe0: ?safeP
    proof (intro allI impI)
      fix res assume "landscapeSetup_p0 rnd st0 numObst rvs = Some res"
      from landscapeSetup_result_p0 [OF assms(2,3,4) cap this] obtain st'
        where "res = Inr (True, st')"
          and "placingInv_p0 rnd (boundaries (marsMap st0)) (console st0) (numObst + int (length rvs)) rvs
             (st', 0, [], 0)"
        by blast
      with placed_all_p0 [OF assms(2) _ assms(3)]
      show "\<exists>st'. res = Inr (True, st') \<and>
              finite (occupiedCells_p0 (marsMap st')) \<and>
              card (occupiedCells_p0 (marsMap st')) = nat (numObst + int (length rvs)) \<and>
              (\<forall>c\<in>occupiedCells_p0 (marsMap st').
                 0 \<le> fst c \<and> fst c < xSize \<and> 0 \<le> snd c \<and> snd c < ySize) \<and>
              (\<forall>r\<in>set rvs. \<exists>c. currentCoords (rovers st' r) = Some c \<and>
                 travelLog (rovers st' r) = Some [c] \<and>
                 squareAt_p0 (marsMap st') c = Some (RoverRef r)) \<and>
              boundaries (marsMap st') = boundaries (marsMap st0) \<and> console st' = console st0"
        by blast
    qed
    have live: ?live
    proof
      assume "\<exists>n. nat (numObst + int (length rvs)) \<le> card (rnd ` {..<n})"
      with landscapeSetup_returns_iff [OF assms(1,3,4) cap]
      obtain res where res: "landscapeSetup rnd st numObst rvs = Some res"
        by blast
      from landscapeSetup_result [OF assms(1,3,4) cap res] res
      show "\<exists>st'. landscapeSetup rnd st numObst rvs = Some (Inr (True, st'))"
        by blast
    next
      assume "\<exists>st'. landscapeSetup rnd st numObst rvs = Some (Inr (True, st'))"
      then have "landscapeSetup rnd st numObst rvs \<noteq> None"
        by auto
      with landscapeSetup_returns_iff [OF assms(1,3,4) cap]
      show "\<exists>n. nat (numObst + int (length rvs)) \<le> card (rnd ` {..<n})"
        by blast
    qed
    have live0: ?liveP
    proof
      assume "\<exists>n. nat (numObst + int (length rvs)) \<le> card (rnd ` {..<n})"
      with landscapeSetup_returns_iff_p0 [OF assms(2,3,4) cap]
      obtain res where res: "landscapeSetup_p0 rnd st0 numObst rvs = Some res"
        by blast
      from landscapeSetup_result_p0 [OF assms(2,3,4) cap res] res
      show "\<exists>st'. landscapeSetup_p0 rnd st0 numObst rvs = Some (Inr (True, st'))"
        by blast
    next
      assume "\<exists>st'. landscapeSetup_p0 rnd st0 numObst rvs = Some (Inr (True, st'))"
      then have "landscapeSetup_p0 rnd st0 numObst rvs \<noteq> None"
        by auto
      with landscapeSetup_returns_iff_p0 [OF assms(2,3,4) cap]
      show "\<exists>n. nat (numObst + int (length rvs)) \<le> card (rnd ` {..<n})"
        by blast
    qed
    show ?thesis
      by (intro conjI) (rule safe live safe0 live0)+
  qed
  show ?thesis
    using full rest by blast
qed

text \<open>
  An instance: on the \<open>10 \<times> 10\<close> map, 99 obstacles and two rovers are refused, and one
  obstacle and two rovers are placed from \<open>drawThree\<close> on three squares.
\<close>

theorem landscapeSetup_places_witness:
  "\<exists>(st :: entry world) (st0 :: coords world) st' st0'.
     unplaced (generateMap 10 10) = Some st \<and>
     unplaced (generateEmptyMap_p0 10 10) = Some st0 \<and>
     landscapeSetup drawThree st 99 [marsRoverAlpha, marsRoverBeta] = Some (Inr (False, st)) \<and>
     landscapeSetup_p0 drawThree st0 99 [marsRoverAlpha, marsRoverBeta] = Some (Inr (False, st0)) \<and>
     landscapeSetup drawThree st 1 [marsRoverAlpha, marsRoverBeta] = Some (Inr (True, st')) \<and>
     card (occupiedCells (marsMap st')) = 3 \<and>
     landscapeSetup_p0 drawThree st0 1 [marsRoverAlpha, marsRoverBeta] = Some (Inr (True, st0')) \<and>
     card (occupiedCells_p0 (marsMap st0')) = 3"
proof -
  obtain st :: "entry world" where st: "unplaced (generateMap 10 10) = Some st"
    and gen: "generateMap 10 10 = Some (marsMap st)"
    by (rule unplaced_map)
  obtain st0 :: "coords world" where st0: "unplaced (generateEmptyMap_p0 10 10) = Some st0"
    and gen0: "generateEmptyMap_p0 10 10 = Some (marsMap st0)"
    by (rule unplaced_map_p0)
  let ?rvs = "[marsRoverAlpha, marsRoverBeta]"
  have n99: "(0::int) \<le> 99" and n1: "(0::int) \<le> 1"
    by simp_all
  have over: "10 * 10 < 99 + int (length ?rvs)" and cap: "1 + int (length ?rvs) \<le> 10 * 10"
    by simp_all
  note T = landscapeSetup_checks_capacity_and_places_all [OF gen gen0 _ drawThree_inside]
  note T99 = T [where numObst = 99 and rvs = ?rvs, OF n99, THEN conjunct1, THEN mp, OF over]
  note T1 = T [where numObst = 1 and rvs = ?rvs, OF n1, THEN conjunct2, THEN mp, OF cap]
  note full = T99 [THEN conjunct1] T99 [THEN conjunct2]
  have enough: "\<exists>n. nat (1 + int (length ?rvs)) \<le> card (drawThree ` {..<n})"
    by (rule exI [of _ 3]) (simp add: drawThree_card)
  from T1 [THEN conjunct2, THEN conjunct1, THEN iffD1, OF enough]
  obtain st' where run: "landscapeSetup drawThree st 1 ?rvs = Some (Inr (True, st'))"
    by blast
  from T1 [THEN conjunct2, THEN conjunct2, THEN conjunct2, THEN iffD1, OF enough]
  obtain st0' where run0: "landscapeSetup_p0 drawThree st0 1 ?rvs = Some (Inr (True, st0'))"
    by blast
  from T1 [THEN conjunct1, THEN spec, THEN mp, OF run]
  have card: "card (occupiedCells (marsMap st')) = 3"
    by auto
  from T1 [THEN conjunct2, THEN conjunct2, THEN conjunct1, THEN spec, THEN mp, OF run0]
  have card0: "card (occupiedCells_p0 (marsMap st0')) = 3"
    by auto
  show ?thesis
    by (rule exI [of _ st], rule exI [of _ st0], rule exI [of _ st'], rule exI [of _ st0'])
      (intro conjI st st0 full run card run0 card0)
qed

subsection \<open>The invariant of the data model\<close>

text \<open>
  C7. A square holds one value, and under the invariant \<open>consistent\<close> a square that
  holds a rover holds a rover whose recorded coordinates are that square's, every rover
  on the map is held by the square of its recorded coordinates, and no two rovers have
  the same coordinates. The invariant holds, for the rovers of the list, of the state that
  \<^verbatim>\<open>landscapeSetup\<close> returns, when the rovers of the list are distinct objects; and it is
  kept by a left turn and a right turn, by \<^verbatim>\<open>repositionRover\<close> (whether the move is
  accepted or rejected), by the execution of any order and by \<^verbatim>\<open>commandRovers\<close> on a
  batch of rovers of the map. All of this in both files.
\<close>

theorem one_occupant_per_square_is_invariant:
  fixes st :: "entry world" and st0 :: "coords world"
  shows
    "(generateMap xSize ySize = Some (marsMap st) \<and> 0 \<le> numObst \<and>
      (\<forall>k. 0 \<le> fst (rnd k) \<and> fst (rnd k) < xSize \<and> 0 \<le> snd (rnd k) \<and> snd (rnd k) < ySize) \<and>
      distinct rvs \<and> landscapeSetup rnd st numObst rvs = Some (Inr (True, st')) \<longrightarrow>
        consistent st' (set rvs)) \<and>
     (generateEmptyMap_p0 xSize ySize = Some (marsMap st0) \<and> 0 \<le> numObst \<and>
      (\<forall>k. 0 \<le> fst (rnd k) \<and> fst (rnd k) < xSize \<and> 0 \<le> snd (rnd k) \<and> snd (rnd k) < ySize) \<and>
      distinct rvs \<and> landscapeSetup_p0 rnd st0 numObst rvs = Some (Inr (True, st0')) \<longrightarrow>
        consistent_p0 st0' (set rvs)) \<and>
     (consistent w R \<longrightarrow>
        consistent (w\<lparr>rovers := (rovers w)(r := turnLeft (rovers w r))\<rparr>) R \<and>
        consistent (w\<lparr>rovers := (rovers w)(r := turnRight (rovers w r))\<rparr>) R \<and>
        (\<forall>d w'. r \<in> R \<and> repositionRover w r d = Inr w' \<longrightarrow> consistent w' R) \<and>
        (\<forall>ord w'. fst ord \<in> R \<and> executeOrder w ord = Inr w' \<longrightarrow> consistent w' R) \<and>
        (\<forall>cl w' cl'. (\<forall>p\<in>set cl. rover p \<in> R) \<and> commandRovers w cl = Inr (w', cl') \<longrightarrow>
           consistent w' R) \<and>
        (\<forall>c q. squareAt (marsMap w) c = Some (RoverRef q) \<longrightarrow>
           q \<in> R \<and> currentCoords (rovers w q) = Some c) \<and>
        (\<forall>q\<in>R. \<exists>c. currentCoords (rovers w q) = Some c \<and>
           squareAt (marsMap w) c = Some (RoverRef q)) \<and>
        (\<forall>q1\<in>R. \<forall>q2\<in>R. currentCoords (rovers w q1) = currentCoords (rovers w q2) \<longrightarrow> q1 = q2)) \<and>
     (consistent_p0 w0 R \<longrightarrow>
        consistent_p0 (w0\<lparr>rovers := (rovers w0)(r := turnLeft (rovers w0 r))\<rparr>) R \<and>
        consistent_p0 (w0\<lparr>rovers := (rovers w0)(r := turnRight (rovers w0 r))\<rparr>) R \<and>
        (\<forall>d w'. r \<in> R \<and> repositionRover_p0 w0 r d = Inr w' \<longrightarrow> consistent_p0 w' R) \<and>
        (\<forall>ord w'. fst ord \<in> R \<and> executeOrder_p0 w0 ord = Inr w' \<longrightarrow> consistent_p0 w' R) \<and>
        (\<forall>cl w' cl'. (\<forall>p\<in>set cl. rover p \<in> R) \<and> commandRovers_p0 w0 cl = Inr (w', cl') \<longrightarrow>
           consistent_p0 w' R) \<and>
        (\<forall>c q. squareAt_p0 (marsMap w0) c = Some (RoverRef q) \<longrightarrow>
           q \<in> R \<and> currentCoords (rovers w0 q) = Some c) \<and>
        (\<forall>q\<in>R. \<exists>c. currentCoords (rovers w0 q) = Some c \<and>
           squareAt_p0 (marsMap w0) c = Some (RoverRef q)) \<and>
        (\<forall>q1\<in>R. \<forall>q2\<in>R. currentCoords (rovers w0 q1) = currentCoords (rovers w0 q2) \<longrightarrow> q1 = q2))"
    (is "?est \<and> ?estP \<and> (?con \<longrightarrow> ?kept) \<and> (?conP \<longrightarrow> ?keptP)")
proof -
  have est: ?est
  proof
    assume a: "generateMap xSize ySize = Some (marsMap st) \<and> 0 \<le> numObst \<and>
      (\<forall>k. 0 \<le> fst (rnd k) \<and> fst (rnd k) < xSize \<and> 0 \<le> snd (rnd k) \<and> snd (rnd k) < ySize) \<and>
      distinct rvs \<and> landscapeSetup rnd st numObst rvs = Some (Inr (True, st'))"
    then have gen: "generateMap xSize ySize = Some (marsMap st)" and n0: "0 \<le> numObst"
      and rnd: "\<forall>k. 0 \<le> fst (rnd k) \<and> fst (rnd k) < xSize \<and> 0 \<le> snd (rnd k) \<and> snd (rnd k) < ySize"
      and dist: "distinct rvs" and run: "landscapeSetup rnd st numObst rvs = Some (Inr (True, st'))"
      by blast+
    note g = generateMap_squareAt [OF gen]
    have cap: "numObst + int (length rvs) \<le> xSize * ySize"
    proof (rule ccontr)
      assume "\<not> numObst + int (length rvs) \<le> xSize * ySize"
      then have "down (boundaries (marsMap st)) * right (boundaries (marsMap st)) <
             numObst + int (length rvs)"
        by (simp add: g(2))
      from landscapeSetup_full [OF this, of rnd] run show False
        by simp
    qed
    from landscapeSetup_result [OF gen n0 rnd cap run] dist show "consistent st' (set rvs)"
      by auto
  qed
  have estP: ?estP
  proof
    assume a: "generateEmptyMap_p0 xSize ySize = Some (marsMap st0) \<and> 0 \<le> numObst \<and>
      (\<forall>k. 0 \<le> fst (rnd k) \<and> fst (rnd k) < xSize \<and> 0 \<le> snd (rnd k) \<and> snd (rnd k) < ySize) \<and>
      distinct rvs \<and> landscapeSetup_p0 rnd st0 numObst rvs = Some (Inr (True, st0'))"
    then have gen: "generateEmptyMap_p0 xSize ySize = Some (marsMap st0)" and n0: "0 \<le> numObst"
      and rnd: "\<forall>k. 0 \<le> fst (rnd k) \<and> fst (rnd k) < xSize \<and> 0 \<le> snd (rnd k) \<and> snd (rnd k) < ySize"
      and dist: "distinct rvs" and run: "landscapeSetup_p0 rnd st0 numObst rvs = Some (Inr (True, st0'))"
      by blast+
    note g = generateMap_squareAt_p0 [OF gen]
    have cap: "numObst + int (length rvs) \<le> xSize * ySize"
    proof (rule ccontr)
      assume "\<not> numObst + int (length rvs) \<le> xSize * ySize"
      then have "down (boundaries (marsMap st0)) * right (boundaries (marsMap st0)) <
             numObst + int (length rvs)"
        by (simp add: g(2) mult.commute)
      from landscapeSetup_full_p0 [OF this, of rnd] run show False
        by simp
    qed
    from landscapeSetup_result_p0 [OF gen n0 rnd cap run] dist show "consistent_p0 st0' (set rvs)"
      by auto
  qed
  have kept: ?kept if con: ?con
  proof -
    note cD = consistentD [OF con]
    have k1: "consistent (w\<lparr>rovers := (rovers w)(r := turnLeft (rovers w r))\<rparr>) R"
      and k2: "consistent (w\<lparr>rovers := (rovers w)(r := turnRight (rovers w r))\<rparr>) R"
      by (rule turn_consistent [OF con])+
    have k3: "\<forall>d w'. r \<in> R \<and> repositionRover w r d = Inr w' \<longrightarrow> consistent w' R"
      using repositionRover_consistent [OF con] by blast
    have k4: "\<forall>ord w'. fst ord \<in> R \<and> executeOrder w ord = Inr w' \<longrightarrow> consistent w' R"
      using executeOrder_consistent [OF con] by blast
    have k5: "\<forall>cl w' cl'. (\<forall>p\<in>set cl. rover p \<in> R) \<and> commandRovers w cl = Inr (w', cl') \<longrightarrow>
           consistent w' R"
      using commandRovers_consistent [OF con] by blast
    have k6: "\<forall>c q. squareAt (marsMap w) c = Some (RoverRef q) \<longrightarrow>
           q \<in> R \<and> currentCoords (rovers w q) = Some c"
      using cD(1) by blast
    have k7: "\<forall>q\<in>R. \<exists>c. currentCoords (rovers w q) = Some c \<and>
           squareAt (marsMap w) c = Some (RoverRef q)"
      using cD(2) by blast
    have k8: "\<forall>q1\<in>R. \<forall>q2\<in>R. currentCoords (rovers w q1) = currentCoords (rovers w q2) \<longrightarrow> q1 = q2"
      using consistent_one_rover_per_square [OF con] by blast
    show ?thesis
      by (intro conjI) (rule k1 k2 k3 k4 k5 k6 k7 k8)+
  qed
  have keptP: ?keptP if con: ?conP
  proof -
    note cD = consistentD_p0 [OF con]
    have k1: "consistent_p0 (w0\<lparr>rovers := (rovers w0)(r := turnLeft (rovers w0 r))\<rparr>) R"
      and k2: "consistent_p0 (w0\<lparr>rovers := (rovers w0)(r := turnRight (rovers w0 r))\<rparr>) R"
      by (rule turn_consistent_p0 [OF con])+
    have k3: "\<forall>d w'. r \<in> R \<and> repositionRover_p0 w0 r d = Inr w' \<longrightarrow> consistent_p0 w' R"
      using repositionRover_consistent_p0 [OF con] by blast
    have k4: "\<forall>ord w'. fst ord \<in> R \<and> executeOrder_p0 w0 ord = Inr w' \<longrightarrow> consistent_p0 w' R"
      using executeOrder_consistent_p0 [OF con] by blast
    have k5: "\<forall>cl w' cl'. (\<forall>p\<in>set cl. rover p \<in> R) \<and> commandRovers_p0 w0 cl = Inr (w', cl') \<longrightarrow>
           consistent_p0 w' R"
      using commandRovers_consistent_p0 [OF con] by blast
    have k6: "\<forall>c q. squareAt_p0 (marsMap w0) c = Some (RoverRef q) \<longrightarrow>
           q \<in> R \<and> currentCoords (rovers w0 q) = Some c"
      using cD(1) by blast
    have k7: "\<forall>q\<in>R. \<exists>c. currentCoords (rovers w0 q) = Some c \<and>
           squareAt_p0 (marsMap w0) c = Some (RoverRef q)"
      using cD(2) by blast
    have k8: "\<forall>q1\<in>R. \<forall>q2\<in>R. currentCoords (rovers w0 q1) = currentCoords (rovers w0 q2) \<longrightarrow> q1 = q2"
      using consistent_one_rover_per_square_p0 [OF con] by blast
    show ?thesis
      by (intro conjI) (rule k1 k2 k3 k4 k5 k6 k7 k8)+
  qed
  show ?thesis
    using est estP kept keptP by blast
qed

text \<open>
  An instance: the state in which \<^verbatim>\<open>landscapeSetup\<close> has placed Alpha and Beta satisfies
  the invariant, and so does the state after Alpha's \<^verbatim>\<open>f\<close> and Beta's \<^verbatim>\<open>lf\<close>.
\<close>

theorem invariant_witness:
  "\<exists>st st' cl' st0 st0' cl0'. placedWorld = Some st \<and> placedWorld_p0 = Some st0 \<and>
     consistent st {marsRoverAlpha, marsRoverBeta} \<and>
     commandRovers st [\<lparr>rover = marsRoverAlpha, commands = ''f''\<rparr>,
                       \<lparr>rover = marsRoverBeta, commands = ''lf''\<rparr>] = Inr (st', cl') \<and>
     consistent st' {marsRoverAlpha, marsRoverBeta} \<and>
     consistent_p0 st0 {marsRoverAlpha, marsRoverBeta} \<and>
     commandRovers_p0 st0 [\<lparr>rover = marsRoverAlpha, commands = ''f''\<rparr>,
                       \<lparr>rover = marsRoverBeta, commands = ''lf''\<rparr>] = Inr (st0', cl0') \<and>
     consistent_p0 st0' {marsRoverAlpha, marsRoverBeta}"
proof -
  let ?rvs = "[marsRoverAlpha, marsRoverBeta]"
  let ?cl = "[\<lparr>rover = marsRoverAlpha, commands = ''f''\<rparr>, \<lparr>rover = marsRoverBeta, commands = ''lf''\<rparr>]"
  have dist: "distinct ?rvs"
    by (simp add: marsRoverAlpha_def marsRoverBeta_def)
  have n1: "(0::int) \<le> 1"
    by simp
  have R: "set ?rvs = {marsRoverAlpha, marsRoverBeta}"
    by simp
  have cl: "\<forall>p\<in>set ?cl. rover p \<in> {marsRoverAlpha, marsRoverBeta}"
    by simp
  from setup_js obtain u st where gen: "generateMap 10 10 = Some (marsMap u)"
    and run: "landscapeSetup drawThree u 1 ?rvs = Some (Inr (True, st))"
    and st: "placedWorld = Some st"
    by blast
  from setup_p0 obtain u0 st0 where gen0: "generateEmptyMap_p0 10 10 = Some (marsMap u0)"
    and run0: "landscapeSetup_p0 drawThree u0 1 ?rvs = Some (Inr (True, st0))"
    and st0: "placedWorld_p0 = Some st0"
    by blast
  from run_js obtain sta st' cl' where sta: "placedWorld = Some sta"
    and cmd': "commandRovers sta ?cl = Inr (st', cl')"
    by blast
  from st sta have eq: "sta = st"
    by (metis option.inject)
  have cmd: "commandRovers st ?cl = Inr (st', cl')"
    using cmd' unfolding eq .
  from run_p0 obtain stb st0' cl0' where stb: "placedWorld_p0 = Some stb"
    and cmd0': "commandRovers_p0 stb ?cl = Inr (st0', cl0')"
    by blast
  from st0 stb have eq0: "stb = st0"
    by (metis option.inject)
  have cmd0: "commandRovers_p0 st0 ?cl = Inr (st0', cl0')"
    using cmd0' unfolding eq0 .
  note T = one_occupant_per_square_is_invariant
    [where xSize = 10 and ySize = 10 and numObst = 1 and rnd = drawThree and rvs = ?rvs
       and R = "{marsRoverAlpha, marsRoverBeta}"]
  from T [where st = u and st' = st, THEN conjunct1] gen n1 drawThree_inside dist run
  have c1: "consistent st {marsRoverAlpha, marsRoverBeta}"
    unfolding R by blast
  from T [where ?st0.0 = u0 and st0' = st0, THEN conjunct2, THEN conjunct1]
    gen0 n1 drawThree_inside dist run0
  have c3: "consistent_p0 st0 {marsRoverAlpha, marsRoverBeta}"
    unfolding R by blast
  from T [where w = st, THEN conjunct2, THEN conjunct2, THEN conjunct1] c1 cl cmd
  have c2: "consistent st' {marsRoverAlpha, marsRoverBeta}"
    by blast
  from T [where ?w0.0 = st0, THEN conjunct2, THEN conjunct2, THEN conjunct2] c3 cl cmd0
  have c4: "consistent_p0 st0' {marsRoverAlpha, marsRoverBeta}"
    by blast
  show ?thesis
    by (rule exI [of _ st], rule exI [of _ st'], rule exI [of _ cl'],
        rule exI [of _ st0], rule exI [of _ st0'], rule exI [of _ cl0'])
      (intro conjI st st0 c1 cmd c2 c3 cmd0 c4)
qed

subsection \<open>Termination of the placement loop\<close>

lemma landscapeSetup_upto_iff:
  assumes gen: "generateMap xSize ySize = Some (marsMap st)" and n0: "0 \<le> numObst"
    and rnd: "\<forall>k. 0 \<le> fst (rnd k) \<and> fst (rnd k) < xSize \<and> 0 \<le> snd (rnd k) \<and> snd (rnd k) < ySize"
  shows "(\<exists>res. landscapeSetup_upto n rnd 0 (st, numObst, rvs, numObst + int (length rvs)) = Some res) \<longleftrightarrow>
           nat (numObst + int (length rvs)) \<le> card (rnd ` {..<n})"
proof -
  note r = generateMap_rectangular [OF gen]
  let ?p = "(st, numObst, rvs, numObst + int (length rvs))"
  note start = landscapeSetup_start [OF gen n0 rnd, of rvs]
  have set_eq: "rnd ` {0..<0 + n} - occupiedCells (marsMap (fst ?p)) = rnd ` {..<n}"
    by (simp add: r(2) atLeast0LessThan)
  show ?thesis
  proof
    assume "\<exists>res. landscapeSetup_upto n rnd 0 ?p = Some res"
    then obtain res where "landscapeSetup_upto n rnd 0 ?p = Some res"
      by blast
    from return_needs_samples [OF start(1) this]
    show "nat (numObst + int (length rvs)) \<le> card (rnd ` {..<n})"
      unfolding set_eq by simp
  next
    assume "nat (numObst + int (length rvs)) \<le> card (rnd ` {..<n})"
    then have "nat (snd (snd (snd ?p))) \<le> card (rnd ` {0..<0 + n} - occupiedCells (marsMap (fst ?p)))"
      unfolding set_eq by simp
    from enough_samples_return [OF start(1) this]
    show "\<exists>res. landscapeSetup_upto n rnd 0 ?p = Some res"
      by blast
  qed
qed

lemma landscapeSetup_upto_iff_p0:
  assumes gen: "generateEmptyMap_p0 xSize ySize = Some (marsMap st)" and n0: "0 \<le> numObst"
    and rnd: "\<forall>k. 0 \<le> fst (rnd k) \<and> fst (rnd k) < xSize \<and> 0 \<le> snd (rnd k) \<and> snd (rnd k) < ySize"
  shows "(\<exists>res. landscapeSetup_upto_p0 n rnd 0 (st, numObst, rvs, numObst + int (length rvs)) = Some res) \<longleftrightarrow>
           nat (numObst + int (length rvs)) \<le> card (rnd ` {..<n})"
proof -
  note r = generateMap_rectangular_p0 [OF gen]
  let ?p = "(st, numObst, rvs, numObst + int (length rvs))"
  note start = landscapeSetup_start_p0 [OF gen n0 rnd, of rvs]
  have set_eq: "rnd ` {0..<0 + n} - occupiedCells_p0 (marsMap (fst ?p)) = rnd ` {..<n}"
    by (simp add: r(2) atLeast0LessThan)
  show ?thesis
  proof
    assume "\<exists>res. landscapeSetup_upto_p0 n rnd 0 ?p = Some res"
    then obtain res where "landscapeSetup_upto_p0 n rnd 0 ?p = Some res"
      by blast
    from return_needs_samples_p0 [OF start(1) this]
    show "nat (numObst + int (length rvs)) \<le> card (rnd ` {..<n})"
      unfolding set_eq by simp
  next
    assume "nat (numObst + int (length rvs)) \<le> card (rnd ` {..<n})"
    then have "nat (snd (snd (snd ?p))) \<le> card (rnd ` {0..<0 + n} - occupiedCells_p0 (marsMap (fst ?p)))"
      unfolding set_eq by simp
    from enough_samples_return_p0 [OF start(1) this]
    show "\<exists>res. landscapeSetup_upto_p0 n rnd 0 ?p = Some res"
      by blast
  qed
qed

text \<open>
  C8, as the specification states it, fails: on the \<open>10 \<times> 10\<close> map, with one obstacle and
  one rover to place (two squares out of a hundred), the stream that always draws
  \<open>(0, 0)\<close> places the obstacle and then finds its square occupied for ever. The call does
  not return, in either file.
\<close>

theorem constant_stream_never_returns:
  "unplaced (generateMap 10 10) = Some (bareWorld :: entry world) \<and>
   unplaced (generateEmptyMap_p0 10 10) = Some (bareWorld :: coords world) \<and>
   1 + int (length [marsRoverAlpha]) \<le> 10 * 10 \<and>
   landscapeSetup drawOrigin bareWorld 1 [marsRoverAlpha] = None \<and>
   landscapeSetup_p0 drawOrigin bareWorld 1 [marsRoverAlpha] = None"
proof -
  have gen: "generateMap 10 10 = Some (marsMap (bareWorld :: entry world))"
    and gen0: "generateEmptyMap_p0 10 10 = Some (marsMap (bareWorld :: coords world))"
    by (simp_all add: generateMap_def generateEmptyMap_p0_def bareWorld_def)
  have n1: "(0::int) \<le> 1" and cap: "1 + int (length [marsRoverAlpha]) \<le> 10 * 10"
    by simp_all
  have few: "\<not> (\<exists>n. nat (1 + int (length [marsRoverAlpha])) \<le> card (drawOrigin ` {..<n}))"
  proof
    assume "\<exists>n. nat (1 + int (length [marsRoverAlpha])) \<le> card (drawOrigin ` {..<n})"
    then obtain n where "2 \<le> card (drawOrigin ` {..<n})"
      by auto
    with drawOrigin_card [of n] show False
      by simp
  qed
  have a: "landscapeSetup drawOrigin bareWorld 1 [marsRoverAlpha] = None"
    using landscapeSetup_returns_iff [OF gen n1 drawOrigin_inside cap] few by blast
  have b: "landscapeSetup_p0 drawOrigin bareWorld 1 [marsRoverAlpha] = None"
    using landscapeSetup_returns_iff_p0 [OF gen0 n1 drawOrigin_inside cap] few by blast
  show ?thesis
    by (intro conjI unplaced_bareWorld cap a b)
qed

text \<open>
  C8, amended. For every map of positive dimensions that \<^verbatim>\<open>generateMap\<close> (in \<^verbatim>\<open>part_000\<close>,
  \<^verbatim>\<open>generateEmptyMap\<close>) has made, every obstacle count that is not negative and every list
  of rovers that together satisfy the capacity precondition, and every stream of samples
  inside the map: the placement loop has returned after \<open>n\<close> iterations exactly when the
  first \<open>n\<close> samples hold at least \<open>numObst + |rovers|\<close> different squares, and
  \<^verbatim>\<open>landscapeSetup\<close> returns exactly when some finite part of the stream does. No retry cap
  is part of the condition.
\<close>

theorem landscapeSetup_returns_iff_enough_different_samples:
  fixes st :: "entry world" and st0 :: "coords world"
  assumes "generateMap xSize ySize = Some (marsMap st)"
    and "generateEmptyMap_p0 xSize ySize = Some (marsMap st0)"
    and "0 \<le> numObst"
    and "\<forall>k. 0 \<le> fst (rnd k) \<and> fst (rnd k) < xSize \<and> 0 \<le> snd (rnd k) \<and> snd (rnd k) < ySize"
    and "numObst + int (length rvs) \<le> xSize * ySize"
  shows
    "((\<exists>res. landscapeSetup_upto n rnd 0 (st, numObst, rvs, numObst + int (length rvs)) = Some res) =
        (nat (numObst + int (length rvs)) \<le> card (rnd ` {..<n}))) \<and>
     ((landscapeSetup rnd st numObst rvs \<noteq> None) =
        (\<exists>n. nat (numObst + int (length rvs)) \<le> card (rnd ` {..<n}))) \<and>
     ((\<exists>res. landscapeSetup_upto_p0 n rnd 0 (st0, numObst, rvs, numObst + int (length rvs)) = Some res) =
        (nat (numObst + int (length rvs)) \<le> card (rnd ` {..<n}))) \<and>
     ((landscapeSetup_p0 rnd st0 numObst rvs \<noteq> None) =
        (\<exists>n. nat (numObst + int (length rvs)) \<le> card (rnd ` {..<n})))"
  by (intro conjI)
    (rule landscapeSetup_upto_iff [OF assms(1,3,4)] landscapeSetup_returns_iff [OF assms(1,3,4,5)]
       landscapeSetup_upto_iff_p0 [OF assms(2,3,4)] landscapeSetup_returns_iff_p0 [OF assms(2,3,4,5)])+

text \<open>
  An instance: \<open>drawThree\<close> visits three different squares in its first three samples,
  and the call that has one obstacle and two rovers to place returns; it has not
  returned after two iterations.
\<close>

theorem landscapeSetup_returns_witness:
  "\<exists>(st :: entry world) (st0 :: coords world).
     unplaced (generateMap 10 10) = Some st \<and>
     unplaced (generateEmptyMap_p0 10 10) = Some st0 \<and>
     landscapeSetup drawThree st 1 [marsRoverAlpha, marsRoverBeta] \<noteq> None \<and>
     landscapeSetup_p0 drawThree st0 1 [marsRoverAlpha, marsRoverBeta] \<noteq> None \<and>
     (\<exists>res. landscapeSetup_upto 3 drawThree 0
        (st, 1, [marsRoverAlpha, marsRoverBeta], 1 + int (length [marsRoverAlpha, marsRoverBeta])) = Some res) \<and>
     (\<exists>res. landscapeSetup_upto_p0 3 drawThree 0
        (st0, 1, [marsRoverAlpha, marsRoverBeta], 1 + int (length [marsRoverAlpha, marsRoverBeta])) = Some res)"
proof -
  obtain st :: "entry world" where st: "unplaced (generateMap 10 10) = Some st"
    and gen: "generateMap 10 10 = Some (marsMap st)"
    by (rule unplaced_map)
  obtain st0 :: "coords world" where st0: "unplaced (generateEmptyMap_p0 10 10) = Some st0"
    and gen0: "generateEmptyMap_p0 10 10 = Some (marsMap st0)"
    by (rule unplaced_map_p0)
  let ?rvs = "[marsRoverAlpha, marsRoverBeta]"
  have n1: "(0::int) \<le> 1" and cap: "1 + int (length ?rvs) \<le> 10 * 10"
    by simp_all
  have three: "nat (1 + int (length ?rvs)) \<le> card (drawThree ` {..<3})"
    by (simp add: drawThree_card)
  then have enough: "\<exists>n. nat (1 + int (length ?rvs)) \<le> card (drawThree ` {..<n})"
    by (rule exI [of _ 3])
  note T = landscapeSetup_returns_iff_enough_different_samples
    [OF gen gen0 n1 drawThree_inside cap, where n = 3]
  have a: "landscapeSetup drawThree st 1 ?rvs \<noteq> None"
    using T [THEN conjunct2, THEN conjunct1] enough by blast
  have b: "landscapeSetup_p0 drawThree st0 1 ?rvs \<noteq> None"
    using T [THEN conjunct2, THEN conjunct2, THEN conjunct2] enough by blast
  have c: "\<exists>res. landscapeSetup_upto 3 drawThree 0 (st, 1, ?rvs, 1 + int (length ?rvs)) = Some res"
    using T [THEN conjunct1] three by blast
  have d: "\<exists>res. landscapeSetup_upto_p0 3 drawThree 0 (st0, 1, ?rvs, 1 + int (length ?rvs)) = Some res"
    using T [THEN conjunct2, THEN conjunct2, THEN conjunct1] three by blast
  show ?thesis
    by (rule exI [of _ st], rule exI [of _ st0]) (intro conjI st st0 a b c d)
qed

end
